theory Spec2Isabelle
  imports Main "HOL-Library.Word"
begin

section \<open>The search-input parser of \<open>src/Search.tsx\<close>\<close>

text \<open>
  A JavaScript string is a sequence of UTF-16 code units; \<open>str[i]\<close> and \<open>str.length\<close>
  index and count code units. A code unit is a 16-bit word, a string a list of them.
  \<open>js\<close> writes an ASCII literal of the source as such a list.
\<close>

type_synonym jschar = "16 word"
type_synonym jsstring = "jschar list"

definition js :: "string \<Rightarrow> jsstring" where
  "js s = map of_char s"

abbreviation (input) quoteChar :: jschar where "quoteChar \<equiv> 0x22"
abbreviation (input) backslashChar :: jschar where "backslashChar \<equiv> 0x5C"
abbreviation (input) colonChar :: jschar where "colonChar \<equiv> 0x3A"
abbreviation (input) spaceChar :: jschar where "spaceChar \<equiv> 0x20"

text \<open>
  The regular expression \<open>/\s/\<close> of the source (lines 245 and 264): the code units that
  ECMAScript classifies as WhiteSpace or LineTerminator.
\<close>

definition isSpace :: "jschar \<Rightarrow> bool" where
  "isSpace c \<longleftrightarrow>
     c = 0x09 \<or> c = 0x0A \<or> c = 0x0B \<or> c = 0x0C \<or> c = 0x0D \<or> c = 0x20 \<or> c = 0xA0 \<or>
     c = 0x1680 \<or> (0x2000 \<le> c \<and> c \<le> 0x200A) \<or> c = 0x2028 \<or> c = 0x2029 \<or>
     c = 0x202F \<or> c = 0x205F \<or> c = 0x3000 \<or> c = 0xFEFF"

subsection \<open>Data model (lines 4-81)\<close>

text \<open>
  \<open>SearchOption\<close> (lines 4-22): the union is discriminated by \<open>type\<close>, and only the enum
  variant carries its \<open>options\<close>. An absent \<open>multiple\<close> is falsy, so it is a plain bool.
  The fields \<open>title\<close>, \<open>description\<close>, \<open>default\<close> and \<open>suggestionProvider\<close> are never read by
  \<open>parse\<close> and are left out.
\<close>

datatype OptionType = TNumber | TString | TEnum "jsstring list" | TBoolean

record SearchOption =
  name :: jsstring
  multiple :: bool
  otype :: OptionType

datatype TokenType =
    Space | Text | Numeric | Enum | OptionName | InvalidOptionName | EscapeSequence
  | InvalidEscapeSequence | MissingQuote | MissingOptionValue | Invalid

text \<open>
  \<open>Token.suggest\<close> is \<open>"none"\<close>, \<open>"options"\<close> or a \<open>SearchOption\<close>. The source stores
  \<open>currentOption as SearchOption\<close>, which at run time may be \<open>null\<close>: the payload is an option.
\<close>

datatype Suggest = SuggestNone | SuggestOptions | SuggestOption "SearchOption option"

record Token =
  ttype :: TokenType
  content :: jsstring
  suggest :: Suggest

text \<open>
  A stored value (\<open>any\<close> in the source) is a boolean, a string, or the number that
  \<open>Number(raw)\<close> returns, kept as the literal it was converted from.
\<close>

datatype jsvalue = VBool bool | VString jsstring | VNumber jsstring

datatype OptionValue = Value jsvalue | Values "jsvalue list"

record SearchParams =
  ptext :: "jsstring list"
  options :: "jsstring \<rightharpoonup> OptionValue"

record ParseError =
  position :: nat
  etext :: string

record ParseResult =
  r_tokens :: "Token list"
  r_error :: "ParseError option"
  r_result :: "SearchParams option"

text \<open>What \<open>parse\<close> can throw: the explicit \<open>Error('logic error')\<close> of line 116, and the
  \<open>TypeError\<close> of calling or dereferencing something that is not there.\<close>

datatype jsException = LogicError | TypeError

subsection \<open>Plain objects used as dictionaries\<close>

text \<open>
  \<open>options\<close> (line 97) and \<open>result.options\<close> (line 94) are object literals; the maps below
  hold their own properties. Two features of such objects are visible to \<open>parse\<close>:
  \<^item> \<open>obj.hasOwnProperty(k)\<close> first looks \<open>hasOwnProperty\<close> up on the object itself; an own
    property of that name shadows the inherited method, and calling it throws \<open>TypeError\<close>,
    since the values stored here are objects, not functions;
  \<^item> \<open>obj["__proto__"] = v\<close> with an object \<open>v\<close> replaces the prototype and creates no own
    property.
\<close>

definition hasOwnPropertyName :: jsstring where
  "hasOwnPropertyName = js ''hasOwnProperty''"

definition protoName :: jsstring where
  "protoName = js ''__proto__''"

definition hasOwnProperty :: "(jsstring \<rightharpoonup> 'a) \<Rightarrow> jsstring \<Rightarrow> jsException + bool" where
  "hasOwnProperty obj k =
     (if obj hasOwnPropertyName \<noteq> None then Inl TypeError else Inr (obj k \<noteq> None))"

definition setProperty :: "(jsstring \<rightharpoonup> 'a) \<Rightarrow> jsstring \<Rightarrow> 'a \<Rightarrow> (jsstring \<rightharpoonup> 'a)" where
  "setProperty obj k v = (if k = protoName then obj else obj(k \<mapsto> v))"

text \<open>Lines 97-102: the lookup table of the schema, later entries overwriting earlier ones.\<close>

definition buildOptions :: "SearchOption list \<Rightarrow> (jsstring \<rightharpoonup> SearchOption)" where
  "buildOptions config = fold (\<lambda>option tbl. setProperty tbl (name option) option) config Map.empty"

subsection \<open>\<open>Number(currentValue)\<close> and \<open>isNaN\<close> (lines 142-143)\<close>

text \<open>
  \<open>Number\<close> applied to a string is the language's StringToNumber: the result is \<open>NaN\<close>
  exactly when the string does not match the \<open>StringNumericLiteral\<close> grammar of ECMAScript,
  which is transcribed here production by production. White space around the literal is
  skipped, and a string of white space only converts to \<open>0\<close>.
\<close>

definition isDecimalDigit :: "jschar \<Rightarrow> bool" where
  "isDecimalDigit c \<longleftrightarrow> 0x30 \<le> c \<and> c \<le> 0x39"

definition isBinaryDigit :: "jschar \<Rightarrow> bool" where
  "isBinaryDigit c \<longleftrightarrow> c = 0x30 \<or> c = 0x31"

definition isOctalDigit :: "jschar \<Rightarrow> bool" where
  "isOctalDigit c \<longleftrightarrow> 0x30 \<le> c \<and> c \<le> 0x37"

definition isHexDigit :: "jschar \<Rightarrow> bool" where
  "isHexDigit c \<longleftrightarrow> (0x30 \<le> c \<and> c \<le> 0x39) \<or> (0x61 \<le> c \<and> c \<le> 0x66) \<or> (0x41 \<le> c \<and> c \<le> 0x46)"

definition decimalDigits :: "jsstring \<Rightarrow> bool" where
  "decimalDigits s \<longleftrightarrow> s \<noteq> [] \<and> list_all isDecimalDigit s"

definition signedInteger :: "jsstring \<Rightarrow> bool" where
  "signedInteger s \<longleftrightarrow>
     (case s of [] \<Rightarrow> False
      | c # r \<Rightarrow> if c = 0x2B \<or> c = 0x2D then decimalDigits r else decimalDigits s)"

text \<open>An optional \<open>ExponentPart\<close>: nothing, or \<open>e\<close> or \<open>E\<close> and a signed integer.\<close>

definition exponentPartOpt :: "jsstring \<Rightarrow> bool" where
  "exponentPartOpt s \<longleftrightarrow>
     (case s of [] \<Rightarrow> True | c # r \<Rightarrow> (c = 0x65 \<or> c = 0x45) \<and> signedInteger r)"

text \<open>
  \<open>StrUnsignedDecimalLiteral\<close>: \<open>Infinity\<close>, or digits with an optional fraction (at least
  one digit on one side of the point) and an optional exponent.
\<close>

definition strUnsignedDecimalLiteral :: "jsstring \<Rightarrow> bool" where
  "strUnsignedDecimalLiteral s \<longleftrightarrow>
     s = js ''Infinity'' \<or>
     (let ip = takeWhile isDecimalDigit s; r = dropWhile isDecimalDigit s in
      case r of
        [] \<Rightarrow> ip \<noteq> []
      | c # r' \<Rightarrow>
          if c = 0x2E
          then (let fp = takeWhile isDecimalDigit r'; e = dropWhile isDecimalDigit r'
                in (ip \<noteq> [] \<or> fp \<noteq> []) \<and> exponentPartOpt e)
          else ip \<noteq> [] \<and> exponentPartOpt r)"

definition strDecimalLiteral :: "jsstring \<Rightarrow> bool" where
  "strDecimalLiteral s \<longleftrightarrow>
     (case s of [] \<Rightarrow> False
      | c # r \<Rightarrow> if c = 0x2B \<or> c = 0x2D then strUnsignedDecimalLiteral r
                 else strUnsignedDecimalLiteral s)"

text \<open>\<open>NonDecimalIntegerLiteral\<close>: \<open>0b\<close>, \<open>0o\<close> or \<open>0x\<close> (either case) and digits of that base.\<close>

definition nonDecimalIntegerLiteral :: "jsstring \<Rightarrow> bool" where
  "nonDecimalIntegerLiteral s \<longleftrightarrow>
     (case s of
        z # b # ds \<Rightarrow>
          z = 0x30 \<and> ds \<noteq> [] \<and>
          (((b = 0x62 \<or> b = 0x42) \<and> list_all isBinaryDigit ds) \<or>
           ((b = 0x6F \<or> b = 0x4F) \<and> list_all isOctalDigit ds) \<or>
           ((b = 0x78 \<or> b = 0x58) \<and> list_all isHexDigit ds))
      | _ \<Rightarrow> False)"

definition trimWhiteSpace :: "jsstring \<Rightarrow> jsstring" where
  "trimWhiteSpace s = rev (dropWhile isSpace (rev (dropWhile isSpace s)))"

definition stringNumericLiteral :: "jsstring \<Rightarrow> bool" where
  "stringNumericLiteral s \<longleftrightarrow>
     (let t = trimWhiteSpace s
      in t = [] \<or> strDecimalLiteral t \<or> nonDecimalIntegerLiteral t)"

text \<open>\<open>isNaN(Number(s))\<close>.\<close>

definition numberIsNaN :: "jsstring \<Rightarrow> bool" where
  "numberIsNaN s \<longleftrightarrow> \<not> stringNumericLiteral s"

subsection \<open>The scanner state and its three closures (lines 91-197)\<close>

text \<open>The variables that the closures of \<open>parse\<close> share, under their source names.\<close>

record pstate =
  tokens :: "Token list"
  result :: SearchParams
  error :: "ParseError option"
  currentTokenText :: jsstring
  currentValue :: jsstring
  inQuotes :: bool
  escaped :: bool
  inOptionValue :: bool
  currentOption :: "SearchOption option"

definition initState :: pstate where
  "initState = \<lparr>tokens = [], result = \<lparr>ptext = [], options = Map.empty\<rparr>, error = None,
     currentTokenText = [], currentValue = [], inQuotes = False, escaped = False,
     inOptionValue = False, currentOption = None\<rparr>"

text \<open>Lines 84-88.\<close>

definition escapeSequences :: "jschar \<rightharpoonup> jschar" where
  "escapeSequences = [0x6E \<mapsto> 0x0A, 0x22 \<mapsto> 0x22, 0x5C \<mapsto> 0x5C]"

text \<open>Lines 175-190.\<close>

definition completeToken :: "TokenType \<Rightarrow> pstate \<Rightarrow> pstate" where
  "completeToken ty st =
     st\<lparr>tokens := tokens st @
          [\<lparr>ttype = ty, content = currentTokenText st,
            suggest = (if inOptionValue st \<or> ty = MissingOptionValue
                       then SuggestOption (currentOption st)
                       else if ty = Text \<or> ty = Space then SuggestOptions
                       else SuggestNone)\<rparr>],
        currentTokenText := []\<rparr>"

text \<open>Lines 193-197.\<close>

definition parseError :: "nat \<Rightarrow> string \<Rightarrow> pstate \<Rightarrow> pstate" where
  "parseError pos txt st =
     (if error st = None then st\<lparr>error := Some \<lparr>position = pos, etext = txt\<rparr>\<rparr> else st)"

text \<open>
  The \<open>switch\<close> of lines 124-158: the kind of token that is completed, and the value, or
  \<open>None\<close> where the source sets \<open>invalidValue\<close>.
\<close>

definition coerceValue :: "OptionType \<Rightarrow> jsstring \<Rightarrow> TokenType \<times> jsvalue option" where
  "coerceValue ty v =
     (case ty of
        TBoolean \<Rightarrow>
          if v = js ''yes'' then (Enum, Some (VBool True))
          else if v = js ''no'' then (Enum, Some (VBool False))
          else (Invalid, None)
      | TString \<Rightarrow> (Text, Some (VString v))
      | TNumber \<Rightarrow> if numberIsNaN v then (Invalid, None) else (Numeric, Some (VNumber v))
      | TEnum choices \<Rightarrow>
          if v \<in> set choices then (Enum, Some (VString v)) else (Invalid, None))"

text \<open>
  Lines 160-169. Reading \<open>.values\<close> of a stored \<open>{value}\<close> gives \<open>undefined\<close>, and \<open>push\<close> on it
  throws. Where the key is not an own property after line 163 (the name \<open>__proto__\<close>), the
  value is pushed onto the prototype and the own properties stay as they are.
\<close>

definition storeValue ::
  "SearchOption \<Rightarrow> jsvalue \<Rightarrow> (jsstring \<rightharpoonup> OptionValue) \<Rightarrow> jsException + (jsstring \<rightharpoonup> OptionValue)" where
  "storeValue opt v ro =
     (if multiple opt then
        (case hasOwnProperty ro (name opt) of
           Inl e \<Rightarrow> Inl e
         | Inr present \<Rightarrow>
             (let ro1 = (if present then ro else setProperty ro (name opt) (Values []))
              in case ro1 (name opt) of
                   Some (Values vs) \<Rightarrow> Inr (ro1(name opt \<mapsto> Values (vs @ [v])))
                 | Some (Value x) \<Rightarrow> Inl TypeError
                 | None \<Rightarrow> Inr ro1))
      else Inr (setProperty ro (name opt) (Value v)))"

text \<open>Lines 114-173.\<close>

definition completeOptionValue :: "pstate \<Rightarrow> jsException + pstate" where
  "completeOptionValue st =
     (case currentOption st of
        None \<Rightarrow> Inl LogicError
      | Some opt \<Rightarrow>
          if currentValue st = []
          then Inr ((completeToken MissingOptionValue st)\<lparr>inOptionValue := False, currentOption := None\<rparr>)
          else
            (case coerceValue (otype opt) (currentValue st) of
               (ty, None) \<Rightarrow>
                 Inr ((completeToken ty st)\<lparr>currentValue := [], inOptionValue := False, currentOption := None\<rparr>)
             | (ty, Some v) \<Rightarrow>
                 (case storeValue opt v (options (result st)) of
                    Inl e \<Rightarrow> Inl e
                  | Inr ro \<Rightarrow>
                      Inr ((completeToken ty st)
                            \<lparr>result := (result st)\<lparr>options := ro\<rparr>, currentValue := [],
                             inOptionValue := False, currentOption := None\<rparr>))))"

subsection \<open>The loop body (lines 200-312)\<close>

text \<open>Lines 201-232: the branch \<open>if (inQuotes)\<close>.\<close>

definition stepQuoted :: "nat \<Rightarrow> jschar \<Rightarrow> pstate \<Rightarrow> jsException + pstate" where
  "stepQuoted i currentChar st =
     (if escaped st then
        (let st1 = st\<lparr>currentTokenText := currentTokenText st @ [currentChar]\<rparr>;
             st2 = (case escapeSequences currentChar of
                      Some d \<Rightarrow>
                        completeToken EscapeSequence (st1\<lparr>currentValue := currentValue st1 @ [d]\<rparr>)
                    | None \<Rightarrow>
                        completeToken InvalidEscapeSequence
                          (parseError i ''invalid escape sequence'' st1))
         in Inr (st2\<lparr>currentTokenText := [], escaped := False\<rparr>))
      else if currentChar = quoteChar then
        (let st1 = st\<lparr>currentTokenText := currentTokenText st @ [quoteChar]\<rparr>
         in if inOptionValue st1 then
              (case completeOptionValue st1 of
                 Inl e \<Rightarrow> Inl e
               | Inr st2 \<Rightarrow> Inr (st2\<lparr>inQuotes := False\<rparr>))
            else
              (let st2 = completeToken Text st1
               in Inr (st2\<lparr>result := (result st2)\<lparr>ptext := ptext (result st2) @ [currentValue st2]\<rparr>,
                           currentValue := [], inQuotes := False\<rparr>)))
      else if currentChar = backslashChar then
        Inr ((completeToken Text st)\<lparr>currentTokenText := [backslashChar], escaped := True\<rparr>)
      else
        Inr (st\<lparr>currentTokenText := currentTokenText st @ [currentChar],
                currentValue := currentValue st @ [currentChar]\<rparr>))"

text \<open>
  Lines 241-243, 251-253 and 256-258: complete the option value, then emit the offending
  character as an \<open>Invalid\<close> token of its own.
\<close>

definition completeThenInvalid :: "jschar \<Rightarrow> pstate \<Rightarrow> jsException + pstate" where
  "completeThenInvalid c st =
     (case completeOptionValue st of
        Inl e \<Rightarrow> Inl e
      | Inr st1 \<Rightarrow> Inr (completeToken Invalid (st1\<lparr>currentTokenText := [c]\<rparr>)))"

text \<open>Lines 234-262: the branch \<open>if (inOptionValue)\<close> outside quotes.\<close>

definition stepOptionValue :: "nat \<Rightarrow> jschar \<Rightarrow> pstate \<Rightarrow> jsException + pstate" where
  "stepOptionValue i currentChar st =
     (if currentChar = quoteChar then
        (if currentTokenText st = []
         then Inr (st\<lparr>inQuotes := True, currentTokenText := [quoteChar]\<rparr>)
         else completeThenInvalid quoteChar (parseError i ''unexpected quotation mark'' st))
      else if isSpace currentChar then
        (case completeOptionValue st of
           Inl e \<Rightarrow> Inl e
         | Inr st1 \<Rightarrow> Inr (completeToken Space (st1\<lparr>currentTokenText := [spaceChar]\<rparr>)))
      else if currentChar = backslashChar then
        completeThenInvalid backslashChar (parseError i ''unexpected escape character'' st)
      else if currentChar = colonChar then
        completeThenInvalid colonChar (parseError i ''unexpected colon character'' st)
      else
        Inr (st\<lparr>currentTokenText := currentTokenText st @ [currentChar],
                currentValue := currentValue st @ [currentChar]\<rparr>))"

text \<open>
  Lines 286-306: a colon in bare text. \<open>options.hasOwnProperty(currentValue)\<close> and the read
  \<open>options[currentValue]\<close> are one lookup of the own properties, after the call itself
  has been resolved.
\<close>

definition stepColon ::
  "(jsstring \<rightharpoonup> SearchOption) \<Rightarrow> nat \<Rightarrow> pstate \<Rightarrow> jsException + pstate" where
  "stepColon opts i st0 =
     (let st = st0\<lparr>currentTokenText := currentTokenText st0 @ [colonChar]\<rparr>
      in if currentValue st = [] then
           Inr (completeToken Invalid (parseError i ''unexpected colon character'' st))
         else
           (case hasOwnProperty opts (currentValue st) of
              Inl e \<Rightarrow> Inl e
            | Inr known \<Rightarrow>
                (case (if known then opts (currentValue st) else None) of
                   None \<Rightarrow>
                     Inr ((parseError i ''unknown option'' (completeToken InvalidOptionName st))
                           \<lparr>currentValue := []\<rparr>)
                 | Some opt \<Rightarrow>
                     (case (if \<not> multiple opt
                            then hasOwnProperty (options (result st)) (currentValue st)
                            else Inr False) of
                        Inl e \<Rightarrow> Inl e
                      | Inr repeated \<Rightarrow>
                          if repeated then
                            Inr ((parseError i ''illegally repeated option''
                                    (completeToken InvalidOptionName st))
                                  \<lparr>currentValue := []\<rparr>)
                          else
                            Inr ((completeToken OptionName st)
                                  \<lparr>currentOption := Some opt, inOptionValue := True,
                                   currentValue := []\<rparr>)))))"

text \<open>Lines 263-311: bare text, neither in quotes nor in an option value.\<close>

definition stepBare ::
  "(jsstring \<rightharpoonup> SearchOption) \<Rightarrow> nat \<Rightarrow> jschar \<Rightarrow> pstate \<Rightarrow> jsException + pstate" where
  "stepBare opts i currentChar st =
     (if isSpace currentChar then
        (let st1 = (if currentTokenText st \<noteq> []
                    then (let st' = completeToken Text st
                          in st'\<lparr>result := (result st')\<lparr>ptext := ptext (result st') @ [currentValue st']\<rparr>\<rparr>)
                    else st)
         in Inr ((completeToken Space (st1\<lparr>currentTokenText := [spaceChar]\<rparr>))\<lparr>currentValue := []\<rparr>))
      else if currentChar = quoteChar then
        (if currentTokenText st = []
         then Inr (st\<lparr>inQuotes := True, currentTokenText := [quoteChar]\<rparr>)
         else Inr (completeToken Invalid
                    ((completeToken Text (parseError i ''unexpected quotation mark'' st))
                      \<lparr>currentTokenText := [quoteChar]\<rparr>)))
      else if currentChar = backslashChar then
        Inr (completeToken Invalid
              ((parseError i ''unexpected escape character'' st)\<lparr>currentTokenText := [backslashChar]\<rparr>))
      else if currentChar = colonChar then stepColon opts i st
      else
        Inr (st\<lparr>currentTokenText := currentTokenText st @ [currentChar],
                currentValue := currentValue st @ [currentChar]\<rparr>))"

definition step ::
  "(jsstring \<rightharpoonup> SearchOption) \<Rightarrow> nat \<Rightarrow> jschar \<Rightarrow> pstate \<Rightarrow> jsException + pstate" where
  "step opts i currentChar st =
     (if inQuotes st then stepQuoted i currentChar st
      else if inOptionValue st then stepOptionValue i currentChar st
      else stepBare opts i currentChar st)"

text \<open>The \<open>for\<close> loop of line 199, from index \<open>i\<close> over the rest of the string.\<close>

fun scan ::
  "(jsstring \<rightharpoonup> SearchOption) \<Rightarrow> nat \<Rightarrow> jsstring \<Rightarrow> pstate \<Rightarrow> jsException + pstate" where
  "scan opts i [] st = Inr st"
| "scan opts i (c # cs) st =
     (case step opts i c st of Inl e \<Rightarrow> Inl e | Inr st' \<Rightarrow> scan opts (Suc i) cs st')"

text \<open>Lines 315-331, with \<open>n\<close> for \<open>str.length\<close>.\<close>

definition endOfInput :: "nat \<Rightarrow> pstate \<Rightarrow> jsException + pstate" where
  "endOfInput n st =
     (if inQuotes st then
        (let st1 = completeToken Text st
         in case (if inOptionValue st1 then completeOptionValue st1
                  else Inr (st1\<lparr>result := (result st1)\<lparr>ptext := ptext (result st1) @ [currentValue st1]\<rparr>\<rparr>)) of
              Inl e \<Rightarrow> Inl e
            | Inr st2 \<Rightarrow> Inr (completeToken MissingQuote (parseError n ''missing quotation mark'' st2)))
      else if inOptionValue st then completeOptionValue st
      else if currentValue st \<noteq> [] then
        Inr (completeToken Text (st\<lparr>result := (result st)\<lparr>ptext := ptext (result st) @ [currentValue st]\<rparr>\<rparr>))
      else Inr st)"

text \<open>Everything after the scan of a prefix: the rest of the loop and lines 315-338.\<close>

definition finish ::
  "(jsstring \<rightharpoonup> SearchOption) \<Rightarrow> nat \<Rightarrow> jsstring \<Rightarrow> pstate \<Rightarrow> jsException + ParseResult" where
  "finish opts i rest st =
     (case scan opts i rest st of
        Inl e \<Rightarrow> Inl e
      | Inr st1 \<Rightarrow>
          (case endOfInput (i + length rest) st1 of
             Inl e \<Rightarrow> Inl e
           | Inr st2 \<Rightarrow> Inr \<lparr>r_tokens = tokens st2, r_error = error st2, r_result = Some (result st2)\<rparr>))"

text \<open>Lines 90-339.\<close>

definition parse :: "jsstring \<Rightarrow> SearchOption list \<Rightarrow> jsException + ParseResult" where
  "parse str config = finish (buildOptions config) 0 str initState"

subsection \<open>Invariants of the scan\<close>

text \<open>Every key of the lookup table is the name of its entry, and never \<open>__proto__\<close>.\<close>

definition wellFormedTable :: "(jsstring \<rightharpoonup> SearchOption) \<Rightarrow> bool" where
  "wellFormedTable opts \<longleftrightarrow>
     (\<forall>k opt. opts k = Some opt \<longrightarrow> name opt = k \<and> k \<noteq> protoName)"

text \<open>The part of the invariant that is about \<open>result.options\<close> alone.\<close>

definition storedOk :: "(jsstring \<rightharpoonup> SearchOption) \<Rightarrow> (jsstring \<rightharpoonup> OptionValue) \<Rightarrow> bool" where
  "storedOk opts ro \<longleftrightarrow>
     (\<forall>k v. ro k = Some v \<longrightarrow>
        opts hasOwnPropertyName = None \<and>
        (\<exists>opt. opts k = Some opt \<and> (multiple opt \<longleftrightarrow> (\<exists>vs. v = Values vs))))"

text \<open>
  What holds of the shared variables between two iterations: in option-value mode an option
  is matched; a matched option is its own table entry (and the table was consulted, so no
  entry shadows \<open>hasOwnProperty\<close>); a stored option is a table entry and is multi-valued
  exactly when that entry is \<open>multiple\<close>.
\<close>

definition scanInv :: "(jsstring \<rightharpoonup> SearchOption) \<Rightarrow> pstate \<Rightarrow> bool" where
  "scanInv opts st \<longleftrightarrow>
     (inOptionValue st \<longrightarrow> currentOption st \<noteq> None) \<and>
     (\<forall>opt. currentOption st = Some opt \<longrightarrow>
        opts (name opt) = Some opt \<and> opts hasOwnPropertyName = None) \<and>
     storedOk opts (options (result st))"

subsection \<open>Properties of token lists\<close>

text \<open>Each \<open>Space\<close> token holds exactly one ASCII space.\<close>

definition spaceTokensOk :: "Token list \<Rightarrow> bool" where
  "spaceTokensOk ts \<longleftrightarrow> (\<forall>t \<in> set ts. ttype t = Space \<longrightarrow> content t = [spaceChar])"

text \<open>
  The text that the tokens of a scan display: the characters read, where a white-space
  character read outside quotes shows as one ASCII space (lines 247 and 269).
\<close>

fun renderedText ::
  "(jsstring \<rightharpoonup> SearchOption) \<Rightarrow> nat \<Rightarrow> jsstring \<Rightarrow> pstate \<Rightarrow> jsstring" where
  "renderedText opts i [] st = []"
| "renderedText opts i (c # cs) st =
     (if \<not> inQuotes st \<and> isSpace c then spaceChar else c) #
     (case step opts i c st of Inl e \<Rightarrow> [] | Inr st' \<Rightarrow> renderedText opts (Suc i) cs st')"

text \<open>
  Whether the scan reads a backslash in bare text while the text of a word is pending:
  line 284 then overwrites \<open>currentTokenText\<close> without completing a token for it.
\<close>

fun dropsPendingText ::
  "(jsstring \<rightharpoonup> SearchOption) \<Rightarrow> nat \<Rightarrow> jsstring \<Rightarrow> pstate \<Rightarrow> bool" where
  "dropsPendingText opts i [] st = False"
| "dropsPendingText opts i (c # cs) st =
     ((\<not> inQuotes st \<and> \<not> inOptionValue st \<and> c = backslashChar \<and> currentTokenText st \<noteq> []) \<or>
      (case step opts i c st of Inl e \<Rightarrow> False | Inr st' \<Rightarrow> dropsPendingText opts (Suc i) cs st'))"

text \<open>In bare text, pending token text comes with a pending decoded value.\<close>

definition pendingInv :: "pstate \<Rightarrow> bool" where
  "pendingInv st \<longleftrightarrow>
     (\<not> inQuotes st \<and> \<not> inOptionValue st \<and> currentTokenText st \<noteq> [] \<longrightarrow> currentValue st \<noteq> [])"

subsection \<open>Splitting on white space\<close>

text \<open>
  Following the specification's words (section 8): the input split on white-space runs,
  that is, its maximal runs of characters that are not white space, in order.
\<close>

function splitOnWhitespace :: "jsstring \<Rightarrow> jsstring list" where
  "splitOnWhitespace s =
     (case dropWhile isSpace s of
        [] \<Rightarrow> []
      | c # r \<Rightarrow>
          takeWhile (\<lambda>x. \<not> isSpace x) (c # r) #
          splitOnWhitespace (dropWhile (\<lambda>x. \<not> isSpace x) (c # r)))"
  by pat_completeness auto
termination
proof (relation "measure length")
  show "wf (measure length)" by simp
next
  fix s :: jsstring and c r
  assume d: "dropWhile isSpace s = c # r"
  then have "\<not> isSpace c" using hd_dropWhile[of isSpace s] by simp
  then have "dropWhile (\<lambda>x. \<not> isSpace x) (c # r) = dropWhile (\<lambda>x. \<not> isSpace x) r" by simp
  moreover have "length (dropWhile (\<lambda>x. \<not> isSpace x) r) \<le> length r" by (rule length_dropWhile_le)
  moreover have "length (c # r) \<le> length s" using length_dropWhile_le[of isSpace s] d by simp
  ultimately show "(dropWhile (\<lambda>x. \<not> isSpace x) (c # r), s) \<in> measure length" by simp
qed

declare splitOnWhitespace.simps [simp del]

subsection \<open>Replacing the recorded error\<close>

text \<open>The state with the variable \<open>error\<close> set to \<open>x\<close>, all else as it is.\<close>

definition setError :: "ParseError option \<Rightarrow> pstate \<Rightarrow> pstate" where
  "setError x st = st\<lparr>error := x\<rparr>"

subsection \<open>Suggestion hints\<close>

text \<open>
  What the hint of a token says about its kind: a hint that is an option is a matched
  entry of the lookup table (never \<open>null\<close>) and is not on a token that is only completed
  outside option-value mode; \<open>"options"\<close> is only on \<open>Text\<close> and \<open>Space\<close> tokens; \<open>"none"\<close> is
  never on a \<open>Text\<close> or \<open>Space\<close> token nor on a token of an option value.
\<close>

definition hintOk :: "(jsstring \<rightharpoonup> SearchOption) \<Rightarrow> Token \<Rightarrow> bool" where
  "hintOk opts t \<longleftrightarrow>
     (case suggest t of
        SuggestOption x \<Rightarrow>
          (case x of None \<Rightarrow> False | Some opt \<Rightarrow> opts (name opt) = Some opt) \<and>
          ttype t \<noteq> Space \<and> ttype t \<noteq> OptionName \<and> ttype t \<noteq> InvalidOptionName \<and>
          ttype t \<noteq> MissingQuote
      | SuggestOptions \<Rightarrow> ttype t = Text \<or> ttype t = Space
      | SuggestNone \<Rightarrow>
          ttype t \<noteq> Text \<and> ttype t \<noteq> Space \<and> ttype t \<noteq> MissingOptionValue \<and>
          ttype t \<noteq> Numeric \<and> ttype t \<noteq> Enum)"

definition hintsOk :: "(jsstring \<rightharpoonup> SearchOption) \<Rightarrow> Token list \<Rightarrow> bool" where
  "hintsOk opts ts \<longleftrightarrow> list_all (hintOk opts) ts"

subsection \<open>Outcomes of value coercion\<close>

text \<open>
  Between the states before and after \<open>completeOptionValue\<close>: the value \<open>x\<close> was accepted for
  the option, stored under its name (appended for a multiple option, alone otherwise), and
  the token completed has the given kind.
\<close>

definition storedAs :: "pstate \<Rightarrow> pstate \<Rightarrow> SearchOption \<Rightarrow> TokenType \<Rightarrow> jsvalue \<Rightarrow> bool" where
  "storedAs st st' opt kind x \<longleftrightarrow>
     options (result st') =
       (options (result st))(name opt \<mapsto>
          (if multiple opt
           then Values ((case options (result st) (name opt) of
                           Some (Values vs) \<Rightarrow> vs | _ \<Rightarrow> []) @ [x])
           else Value x)) \<and>
     ttype (last (tokens st')) = kind"

text \<open>The value was rejected: nothing is stored and the token completed is \<open>Invalid\<close>.\<close>

definition rejectedValue :: "pstate \<Rightarrow> pstate \<Rightarrow> bool" where
  "rejectedValue st st' \<longleftrightarrow>
     options (result st') = options (result st) \<and> ttype (last (tokens st')) = Invalid"

text \<open>What a parse result holds for an option name.\<close>

definition storedOption :: "jsstring \<Rightarrow> ParseResult \<Rightarrow> OptionValue option" where
  "storedOption k r = (case r_result r of None \<Rightarrow> None | Some res \<Rightarrow> options res k)"

section \<open>Basic facts and invariants\<close>

lemma completeToken_simps [simp]:
  "tokens (completeToken ty st) = tokens st @
     [\<lparr>ttype = ty, content = currentTokenText st,
       suggest = (if inOptionValue st \<or> ty = MissingOptionValue
                  then SuggestOption (currentOption st)
                  else if ty = Text \<or> ty = Space then SuggestOptions else SuggestNone)\<rparr>]"
  "currentTokenText (completeToken ty st) = []"
  "result (completeToken ty st) = result st"
  "error (completeToken ty st) = error st"
  "currentValue (completeToken ty st) = currentValue st"
  "inQuotes (completeToken ty st) = inQuotes st"
  "escaped (completeToken ty st) = escaped st"
  "inOptionValue (completeToken ty st) = inOptionValue st"
  "currentOption (completeToken ty st) = currentOption st"
  by (simp_all add: completeToken_def)

lemma parseError_simps [simp]:
  "tokens (parseError p t st) = tokens st"
  "currentTokenText (parseError p t st) = currentTokenText st"
  "result (parseError p t st) = result st"
  "error (parseError p t st) =
     (case error st of None \<Rightarrow> Some \<lparr>position = p, etext = t\<rparr> | Some e \<Rightarrow> Some e)"
  "currentValue (parseError p t st) = currentValue st"
  "inQuotes (parseError p t st) = inQuotes st"
  "escaped (parseError p t st) = escaped st"
  "inOptionValue (parseError p t st) = inOptionValue st"
  "currentOption (parseError p t st) = currentOption st"
  by (simp_all add: parseError_def split: option.splits)

lemma setProperty_wf: "wellFormedTable tbl \<Longrightarrow> wellFormedTable (setProperty tbl (name opt) opt)"
  by (simp add: wellFormedTable_def setProperty_def)

lemma wellFormedTableD:
  "wellFormedTable opts \<Longrightarrow> opts k = Some opt \<Longrightarrow> name opt = k \<and> k \<noteq> protoName"
  unfolding wellFormedTable_def by (drule spec[of _ k], drule spec[of _ opt], erule mp, assumption)

lemma buildOptions_fold_wf:
  "wellFormedTable tbl \<Longrightarrow>
   wellFormedTable (fold (\<lambda>option tbl. setProperty tbl (name option) option) config tbl)"
  by (induction config arbitrary: tbl) (simp_all add: setProperty_wf)

lemma buildOptions_wf: "wellFormedTable (buildOptions config)"
  unfolding buildOptions_def by (rule buildOptions_fold_wf) (simp add: wellFormedTable_def)

lemma scanInv_init: "scanInv opts initState"
  by (simp add: scanInv_def initState_def storedOk_def)

text \<open>The three facts of the invariant, one at a time.\<close>

lemma scanInv_matched:
  "scanInv opts st \<Longrightarrow> inOptionValue st \<Longrightarrow> \<exists>opt. currentOption st = Some opt"
  by (simp add: scanInv_def)

lemma scanInv_current:
  "scanInv opts st \<Longrightarrow> currentOption st = Some opt \<Longrightarrow>
   opts (name opt) = Some opt \<and> opts (hasOwnPropertyName) = None"
  by (simp add: scanInv_def)

lemma scanInv_stored: "scanInv opts st \<Longrightarrow> storedOk opts (options (result st))"
  by (simp add: scanInv_def)

lemma storedOk_upd:
  "storedOk opts ro \<Longrightarrow> opts k = Some opt \<Longrightarrow> opts (hasOwnPropertyName) = None \<Longrightarrow>
   (multiple opt \<longleftrightarrow> (\<exists>vs. v = Values vs)) \<Longrightarrow> storedOk opts (ro(k \<mapsto> v))"
  unfolding storedOk_def by simp

lemma storedOkD:
  "storedOk opts ro \<Longrightarrow> ro k = Some v \<Longrightarrow>
   opts (hasOwnPropertyName) = None \<and>
   (\<exists>opt. opts k = Some opt \<and> (multiple opt \<longleftrightarrow> (\<exists>vs. v = Values vs)))"
  unfolding storedOk_def by (drule spec[of _ k], drule spec[of _ v], erule mp, assumption)

lemma storedOk_noshadow:
  assumes "storedOk opts ro" shows "ro (hasOwnPropertyName) = None"
proof (cases "ro (hasOwnPropertyName)")
  case (Some w)
  from storedOkD[OF assms Some] have "opts (hasOwnPropertyName) = None"
    and "\<exists>opt. opts (hasOwnPropertyName) = Some opt" by blast+
  then show ?thesis by simp
qed simp

lemma storeValue_ok:
  assumes wf: "wellFormedTable opts" and st: "storedOk opts ro"
    and tbl: "opts (name opt) = Some opt" and nohop: "opts (hasOwnPropertyName) = None"
  shows "\<exists>ro'. storeValue opt v ro = Inr ro' \<and> storedOk opts ro'"
proof -
  from wellFormedTableD[OF wf tbl] have np: "name opt \<noteq> protoName" by simp
  have nh: "ro (hasOwnPropertyName) = None" by (rule storedOk_noshadow[OF st])
  show ?thesis
  proof (cases "multiple opt")
    case False
    then have "storeValue opt v ro = Inr (ro(name opt \<mapsto> Value v))"
      using np by (simp add: storeValue_def setProperty_def)
    moreover have "storedOk opts (ro(name opt \<mapsto> Value v))"
      using False by (intro storedOk_upd[OF st tbl nohop]) simp
    ultimately show ?thesis by simp
  next
    case True
    show ?thesis
    proof (cases "ro (name opt)")
      case None
      then have "storeValue opt v ro = Inr (ro(name opt \<mapsto> Values [v]))"
        using True np nh by (simp add: storeValue_def setProperty_def hasOwnProperty_def)
      moreover have "storedOk opts (ro(name opt \<mapsto> Values [v]))"
        using True by (intro storedOk_upd[OF st tbl nohop]) simp
      ultimately show ?thesis by simp
    next
      case (Some w)
      from storedOkD[OF st Some] tbl True obtain vs where w: "w = Values vs" by auto
      then have "storeValue opt v ro = Inr (ro(name opt \<mapsto> Values (vs @ [v])))"
        using True Some np nh by (simp add: storeValue_def setProperty_def hasOwnProperty_def)
      moreover have "storedOk opts (ro(name opt \<mapsto> Values (vs @ [v])))"
        using True by (intro storedOk_upd[OF st tbl nohop]) simp
      ultimately show ?thesis by simp
    qed
  qed
qed

lemma completeOptionValue_InrE:
  assumes "completeOptionValue st = Inr st'"
  obtains opt ty ro where
    "currentOption st = Some opt"
    "st' = (completeToken ty st)\<lparr>result := (result st)\<lparr>options := ro\<rparr>, currentValue := [],
             inOptionValue := False, currentOption := None\<rparr>"
    "(currentValue st = [] \<and> ty = MissingOptionValue \<and> ro = options (result st)) \<or>
     (currentValue st \<noteq> [] \<and> coerceValue (otype opt) (currentValue st) = (ty, None) \<and>
        ro = options (result st)) \<or>
     (currentValue st \<noteq> [] \<and>
        (\<exists>v. coerceValue (otype opt) (currentValue st) = (ty, Some v) \<and>
             storeValue opt v (options (result st)) = Inr ro))"
proof -
  from assms obtain opt where cur: "currentOption st = Some opt"
    by (cases "currentOption st") (simp_all add: completeOptionValue_def)
  show thesis
  proof (cases "currentValue st = []")
    case True
    with assms cur have "st' = (completeToken MissingOptionValue st)\<lparr>result := (result st)\<lparr>options := options (result st)\<rparr>, currentValue := [],
             inOptionValue := False, currentOption := None\<rparr>"
      by (cases st) (auto simp add: completeOptionValue_def completeToken_def)
    with cur True show thesis by (intro that[where opt=opt and ty=MissingOptionValue and ro="options (result st)"]) simp_all
  next
    case False
    obtain ty vo where co: "coerceValue (otype opt) (currentValue st) = (ty, vo)"
      by (cases "coerceValue (otype opt) (currentValue st)")
    show thesis
    proof (cases vo)
      case None
      with assms cur False co have "st' = (completeToken ty st)\<lparr>result := (result st)\<lparr>options := options (result st)\<rparr>, currentValue := [],
             inOptionValue := False, currentOption := None\<rparr>"
        by (simp add: completeOptionValue_def completeToken_def)
      with cur False co None show thesis by (intro that[where opt=opt and ty=ty and ro="options (result st)"]) simp_all
    next
      case (Some v)
      with assms cur False co obtain ro where sv: "storeValue opt v (options (result st)) = Inr ro"
        and "st' = (completeToken ty st)\<lparr>result := (result st)\<lparr>options := ro\<rparr>, currentValue := [],
             inOptionValue := False, currentOption := None\<rparr>"
        by (cases "storeValue opt v (options (result st))") (simp_all add: completeOptionValue_def)
      with cur False co Some show thesis by (intro that[where opt=opt and ty=ty and ro=ro]) simp_all
    qed
  qed
qed

lemma completeOptionValue_fields:
  assumes "completeOptionValue st = Inr st'"
  shows "\<exists>tok. tokens st' = tokens st @ [tok] \<and> content tok = currentTokenText st \<and>
           (suggest tok = SuggestOption (currentOption st) \<or> \<not> inOptionValue st)"
    and "currentTokenText st' = []" and "currentValue st' = []"
    and "inOptionValue st' = False" and "currentOption st' = None"
    and "error st' = error st" and "inQuotes st' = inQuotes st" and "escaped st' = escaped st"
    and "ptext (result st') = ptext (result st)"
  using assms by (auto elim!: completeOptionValue_InrE)

lemma completeOptionValue_inv:
  assumes wf: "wellFormedTable opts" and inv: "scanInv opts st"
    and c: "completeOptionValue st = Inr st'"
  shows "scanInv opts st'"
proof -
  from c obtain opt ty ro where cur: "currentOption st = Some opt"
    and st': "st' = (completeToken ty st)\<lparr>result := (result st)\<lparr>options := ro\<rparr>, currentValue := [],
             inOptionValue := False, currentOption := None\<rparr>"
    and ro: "ro = options (result st) \<or> (\<exists>v. storeValue opt v (options (result st)) = Inr ro)"
    by (elim completeOptionValue_InrE) blast
  from scanInv_current[OF inv cur] have tbl: "opts (name opt) = Some opt"
    and nohop: "opts hasOwnPropertyName = None" by simp_all
  have "storedOk opts ro"
    using ro storeValue_ok[OF wf scanInv_stored[OF inv] tbl nohop] scanInv_stored[OF inv]
    by (metis sum.inject(2))
  then show ?thesis by (simp add: st' scanInv_def)
qed

lemma completeOptionValue_total:
  assumes wf: "wellFormedTable opts" and inv: "scanInv opts st" and m: "inOptionValue st"
  shows "\<exists>st'. completeOptionValue st = Inr st'"
proof -
  from scanInv_matched[OF inv m] obtain opt where cur: "currentOption st = Some opt" ..
  from scanInv_current[OF inv cur] have tbl: "opts (name opt) = Some opt"
    and nohop: "opts hasOwnPropertyName = None" by simp_all
  show ?thesis
  proof (cases "currentValue st = []")
    case True
    with cur show ?thesis by (simp add: completeOptionValue_def)
  next
    case False
    obtain ty vo where co: "coerceValue (otype opt) (currentValue st) = (ty, vo)"
      by (cases "coerceValue (otype opt) (currentValue st)")
    show ?thesis
    proof (cases vo)
      case None
      with cur False co show ?thesis by (simp add: completeOptionValue_def)
    next
      case (Some v)
      from storeValue_ok[OF wf scanInv_stored[OF inv] tbl nohop, of v]
      obtain ro where "storeValue opt v (options (result st)) = Inr ro" by blast
      with cur False co Some show ?thesis by (simp add: completeOptionValue_def)
    qed
  qed
qed

lemma scanInv_frame [simp]:
  "scanInv opts (completeToken ty st) = scanInv opts st"
  "scanInv opts (parseError p t st) = scanInv opts st"
  "scanInv opts (st\<lparr>currentTokenText := a\<rparr>) = scanInv opts st"
  "scanInv opts (st\<lparr>currentValue := b\<rparr>) = scanInv opts st"
  "scanInv opts (st\<lparr>inQuotes := q\<rparr>) = scanInv opts st"
  "scanInv opts (st\<lparr>escaped := e\<rparr>) = scanInv opts st"
  "options r = options (result st) \<Longrightarrow> scanInv opts (st\<lparr>result := r\<rparr>) = scanInv opts st"
  by (simp_all add: scanInv_def)

lemma stepQuoted_inv:
  assumes wf: "wellFormedTable opts" and inv: "scanInv opts st"
    and s: "stepQuoted i c st = Inr st'"
  shows "scanInv opts st'"
proof (cases "\<not> escaped st \<and> c = quoteChar \<and> inOptionValue st")
  case True
  with s obtain st2 where c2: "completeOptionValue (st\<lparr>currentTokenText := currentTokenText st @ [quoteChar]\<rparr>) = Inr st2"
    and st': "st' = st2\<lparr>inQuotes := False\<rparr>"
    by (auto simp: stepQuoted_def Let_def split: sum.splits)
  from completeOptionValue_inv[OF wf _ c2] inv show ?thesis by (simp add: st')
next
  case False
  with s inv show ?thesis
    by (auto simp: stepQuoted_def Let_def split: if_splits option.splits)
qed

lemma completeThenInvalid_inv:
  assumes wf: "wellFormedTable opts" and inv: "scanInv opts st"
    and s: "completeThenInvalid c st = Inr st'"
  shows "scanInv opts st'"
proof -
  from s obtain st1 where c1: "completeOptionValue st = Inr st1"
    and st': "st' = completeToken Invalid (st1\<lparr>currentTokenText := [c]\<rparr>)"
    by (auto simp: completeThenInvalid_def split: sum.splits)
  from completeOptionValue_inv[OF wf inv c1] show ?thesis by (simp add: st')
qed

lemma stepOptionValue_inv:
  assumes wf: "wellFormedTable opts" and inv: "scanInv opts st"
    and s: "stepOptionValue i c st = Inr st'"
  shows "scanInv opts st'"
proof -
  have inv': "\<And>p t. scanInv opts (parseError p t st)" using inv by simp
  show ?thesis
  proof (cases "c \<noteq> quoteChar \<and> isSpace c")
    case True
    with s obtain st1 where c1: "completeOptionValue st = Inr st1"
      and st': "st' = completeToken Space (st1\<lparr>currentTokenText := [spaceChar]\<rparr>)"
      by (auto simp: stepOptionValue_def split: sum.splits)
    from completeOptionValue_inv[OF wf inv c1] show ?thesis by (simp add: st')
  next
    case False
    with s inv show ?thesis
      by (auto simp: stepOptionValue_def split: if_splits
               dest: completeThenInvalid_inv[OF wf inv'])
  qed
qed

lemma stepColon_InrE:
  assumes "stepColon opts i st = Inr st'"
  obtains
    (empty) "currentValue st = []"
      "st' = completeToken Invalid (parseError i ''unexpected colon character''
               (st\<lparr>currentTokenText := currentTokenText st @ [colonChar]\<rparr>))"
  | (unknown) "currentValue st \<noteq> []" "opts hasOwnPropertyName = None"
      "opts (currentValue st) = None"
      "st' = (parseError i ''unknown option'' (completeToken InvalidOptionName
               (st\<lparr>currentTokenText := currentTokenText st @ [colonChar]\<rparr>)))\<lparr>currentValue := []\<rparr>"
  | (repeated) opt where "currentValue st \<noteq> []" "opts hasOwnPropertyName = None"
      "opts (currentValue st) = Some opt" "\<not> multiple opt"
      "options (result st) (currentValue st) \<noteq> None"
      "st' = (parseError i ''illegally repeated option'' (completeToken InvalidOptionName
               (st\<lparr>currentTokenText := currentTokenText st @ [colonChar]\<rparr>)))\<lparr>currentValue := []\<rparr>"
  | (enter) opt where "currentValue st \<noteq> []" "opts hasOwnPropertyName = None"
      "opts (currentValue st) = Some opt"
      "multiple opt \<or> options (result st) (currentValue st) = None"
      "st' = (completeToken OptionName (st\<lparr>currentTokenText := currentTokenText st @ [colonChar]\<rparr>))
               \<lparr>currentOption := Some opt, inOptionValue := True, currentValue := []\<rparr>"
proof (cases "currentValue st = []")
  case True
  with assms show thesis by (intro empty) (simp_all add: stepColon_def Let_def)
next
  case ne: False
  from assms ne have nohop: "opts hasOwnPropertyName = None"
    by (auto simp: stepColon_def Let_def hasOwnProperty_def split: if_splits)
  show thesis
  proof (cases "opts (currentValue st)")
    case None
    with assms ne nohop show thesis
      by (intro unknown) (simp_all add: stepColon_def Let_def hasOwnProperty_def)
  next
    case (Some opt)
    show thesis
    proof (cases "\<not> multiple opt \<and> options (result st) (currentValue st) \<noteq> None")
      case True
      with assms ne nohop Some show thesis
        by (intro repeated[of opt])
           (auto simp add: stepColon_def Let_def hasOwnProperty_def split: if_splits)
    next
      case False
      with assms ne nohop Some show thesis
        by (intro enter[of opt])
           (auto simp add: stepColon_def Let_def hasOwnProperty_def split: if_splits)
    qed
  qed
qed

lemma stepColon_inv:
  assumes wf: "wellFormedTable opts" and inv: "scanInv opts st"
    and s: "stepColon opts i st = Inr st'"
  shows "scanInv opts st'"
  using s
proof (cases rule: stepColon_InrE)
  case (enter opt)
  from wellFormedTableD[OF wf enter(3)] have "name opt = currentValue st" by simp
  with enter scanInv_stored[OF inv] show ?thesis by (simp add: scanInv_def)
qed (use inv in simp_all)

lemma stepBare_inv:
  assumes wf: "wellFormedTable opts" and inv: "scanInv opts st"
    and s: "stepBare opts i c st = Inr st'"
  shows "scanInv opts st'"
  using s inv
  by (auto simp: stepBare_def Let_def split: if_splits dest: stepColon_inv[OF wf inv])

lemma step_inv:
  assumes wf: "wellFormedTable opts" and inv: "scanInv opts st"
    and s: "step opts i c st = Inr st'"
  shows "scanInv opts st'"
  using s stepQuoted_inv[OF wf inv] stepOptionValue_inv[OF wf inv] stepBare_inv[OF wf inv]
  by (auto simp: step_def split: if_splits)

lemma scan_inv:
  "wellFormedTable opts \<Longrightarrow> scanInv opts st \<Longrightarrow> scan opts i cs st = Inr st' \<Longrightarrow> scanInv opts st'"
proof (induction cs arbitrary: i st)
  case Nil
  then show ?case by simp
next
  case (Cons c cs)
  from Cons.prems(3) obtain st1 where s1: "step opts i c st = Inr st1"
    and r: "scan opts (Suc i) cs st1 = Inr st'"
    by (auto split: sum.splits)
  from Cons.IH[OF Cons.prems(1) step_inv[OF Cons.prems(1,2) s1] r] show ?case .
qed

text \<open>The token that \<open>completeOptionValue\<close> completes.\<close>

lemma coerceValue_ttype:
  "coerceValue oty v = (ty, vo) \<Longrightarrow> ty = Enum \<or> ty = Invalid \<or> ty = Text \<or> ty = Numeric"
  by (auto simp: coerceValue_def split: OptionType.splits if_splits)

lemma completeOptionValue_tokens:
  assumes "completeOptionValue st = Inr st'"
  shows "\<exists>ty. tokens st' = tokens st @
           [\<lparr>ttype = ty, content = currentTokenText st,
             suggest = (if inOptionValue st \<or> ty = MissingOptionValue
                        then SuggestOption (currentOption st)
                        else if ty = Text then SuggestOptions else SuggestNone)\<rparr>] \<and>
         (ty = MissingOptionValue \<or> ty = Enum \<or> ty = Invalid \<or> ty = Text \<or> ty = Numeric)"
  using assms
proof (cases rule: completeOptionValue_InrE)
  case (1 opt ty ro)
  from 1(3) have "ty = MissingOptionValue \<or> ty = Enum \<or> ty = Invalid \<or> ty = Text \<or> ty = Numeric"
    using coerceValue_ttype[of "otype opt" "currentValue st" ty] by blast
  with 1(2) show ?thesis by auto
qed

text \<open>The characters with a branch of their own are not white space.\<close>

lemma special_not_space [simp]:
  "\<not> isSpace colonChar" "\<not> isSpace quoteChar" "\<not> isSpace backslashChar"
  "isSpace spaceChar"
  by (simp_all add: isSpace_def)

lemma stepBare_colon [simp]: "stepBare opts i colonChar st = stepColon opts i st"
  by (simp add: stepBare_def)

text \<open>The definitions to unfold when the parser is run on a concrete input.\<close>

lemmas scan_eval =
  parse_def finish_def step_def stepQuoted_def stepOptionValue_def stepBare_def stepColon_def
  completeThenInvalid_def completeOptionValue_def coerceValue_def storeValue_def
  endOfInput_def completeToken_def parseError_def initState_def buildOptions_def
  hasOwnProperty_def setProperty_def hasOwnPropertyName_def protoName_def js_def
  isSpace_def escapeSequences_def Let_def

section \<open>Exceptions and totality\<close>

lemma completeOptionValue_raises:
  assumes wf: "wellFormedTable opts" and inv: "scanInv opts st" and m: "inOptionValue st"
  shows "completeOptionValue st \<noteq> Inl e"
  using completeOptionValue_total[OF wf inv m] by auto

lemma stepQuoted_raises:
  assumes wf: "wellFormedTable opts" and inv: "scanInv opts st"
  shows "stepQuoted i c st \<noteq> Inl e"
proof (cases "\<not> escaped st \<and> c = quoteChar \<and> inOptionValue st")
  case True
  have "scanInv opts (st\<lparr>currentTokenText := currentTokenText st @ [quoteChar]\<rparr>)"
    using inv by simp
  from completeOptionValue_total[OF wf this] True show ?thesis
    by (auto simp: stepQuoted_def Let_def)
next
  case False
  then show ?thesis
    by (auto simp: stepQuoted_def Let_def split: if_splits option.splits)
qed

lemma completeThenInvalid_raises:
  assumes wf: "wellFormedTable opts" and inv: "scanInv opts st" and m: "inOptionValue st"
  shows "completeThenInvalid c st \<noteq> Inl e"
  using completeOptionValue_total[OF wf inv m] by (auto simp: completeThenInvalid_def)

lemma stepOptionValue_raises:
  assumes wf: "wellFormedTable opts" and inv: "scanInv opts st" and m: "inOptionValue st"
  shows "stepOptionValue i c st \<noteq> Inl e"
proof -
  have "\<And>p t d. completeThenInvalid d (parseError p t st) \<noteq> Inl e"
    using inv m by (intro completeThenInvalid_raises[OF wf]) simp_all
  with completeOptionValue_total[OF wf inv m] show ?thesis
    by (auto simp: stepOptionValue_def)
qed

lemma stepColon_raises:
  assumes inv: "scanInv opts st" and s: "stepColon opts i st = Inl e"
  shows "e = TypeError \<and> opts hasOwnPropertyName \<noteq> None \<and> currentValue st \<noteq> []"
proof -
  have "options (result st) hasOwnPropertyName = None"
    by (rule storedOk_noshadow[OF scanInv_stored[OF inv]])
  with s show ?thesis
    by (auto simp: stepColon_def Let_def hasOwnProperty_def split: if_splits option.splits)
qed

lemma stepBare_raises:
  assumes inv: "scanInv opts st" and s: "stepBare opts i c st = Inl e"
  shows "e = TypeError \<and> opts hasOwnPropertyName \<noteq> None \<and> c = colonChar \<and> currentValue st \<noteq> []"
proof -
  from s have "c = colonChar" and "stepColon opts i st = Inl e"
    by (auto simp: stepBare_def Let_def split: if_splits)
  with stepColon_raises[OF inv] show ?thesis by simp
qed

lemma step_raises:
  assumes wf: "wellFormedTable opts" and inv: "scanInv opts st" and s: "step opts i c st = Inl e"
  shows "e = TypeError \<and> opts hasOwnPropertyName \<noteq> None \<and>
         \<not> inQuotes st \<and> \<not> inOptionValue st \<and> c = colonChar \<and> currentValue st \<noteq> []"
  using s stepQuoted_raises[OF wf inv] stepOptionValue_raises[OF wf inv] stepBare_raises[OF inv]
  by (auto simp: step_def split: if_splits)

lemma scan_raises:
  "wellFormedTable opts \<Longrightarrow> scanInv opts st \<Longrightarrow> scan opts i cs st = Inl e \<Longrightarrow>
   e = TypeError \<and> opts hasOwnPropertyName \<noteq> None \<and> colonChar \<in> set cs"
proof (induction cs arbitrary: i st)
  case Nil
  then show ?case by simp
next
  case (Cons c cs)
  show ?case
  proof (cases "step opts i c st")
    case (Inl e')
    with Cons.prems(3) have "e' = e" by simp
    with step_raises[OF Cons.prems(1,2) Inl] show ?thesis by simp
  next
    case (Inr st1)
    with Cons.prems(3) have "scan opts (Suc i) cs st1 = Inl e" by simp
    from Cons.IH[OF Cons.prems(1) step_inv[OF Cons.prems(1,2) Inr] this] show ?thesis by simp
  qed
qed

lemma reachable_inv:
  "scan (buildOptions config) 0 pre initState = Inr st \<Longrightarrow> scanInv (buildOptions config) st"
  by (rule scan_inv[OF buildOptions_wf scanInv_init])

lemma endOfInput_raises:
  assumes wf: "wellFormedTable opts" and inv: "scanInv opts st"
  shows "endOfInput n st \<noteq> Inl e"
proof -
  have "inOptionValue st \<Longrightarrow> completeOptionValue (completeToken Text st) \<noteq> Inl e"
    using inv by (intro completeOptionValue_raises[OF wf]) simp_all
  moreover have "inOptionValue st \<Longrightarrow> completeOptionValue st \<noteq> Inl e"
    using inv by (intro completeOptionValue_raises[OF wf]) simp_all
  ultimately show ?thesis
    by (auto simp: endOfInput_def Let_def split: sum.splits)
qed


lemma finish_raises:
  assumes wf: "wellFormedTable opts" and inv: "scanInv opts st" and f: "finish opts i cs st = Inl e"
  shows "e = TypeError \<and> opts hasOwnPropertyName \<noteq> None \<and> colonChar \<in> set cs"
proof (cases "scan opts i cs st")
  case (Inl e')
  with f have "e' = e" by (simp add: finish_def)
  with scan_raises[OF wf inv Inl] show ?thesis by simp
next
  case (Inr st1)
  from endOfInput_raises[OF wf scan_inv[OF wf inv Inr]] f Inr show ?thesis
    by (auto simp: finish_def split: sum.splits)
qed

lemma parse_raises:
  assumes "parse str config = Inl e"
  shows "e = TypeError \<and> buildOptions config hasOwnPropertyName \<noteq> None \<and> colonChar \<in> set str"
  using finish_raises[OF buildOptions_wf scanInv_init] assms unfolding parse_def by blast

lemma parse_no_logic_error: "parse str config \<noteq> Inl LogicError"
  using parse_raises[of str config LogicError] by auto

lemma setProperty_other: "k' \<noteq> k \<Longrightarrow> setProperty tbl k' v k = tbl k"
  by (simp add: setProperty_def)

lemma buildOptions_fold_None:
  "\<forall>opt \<in> set config. name opt \<noteq> k \<Longrightarrow> tbl k = None \<Longrightarrow>
   fold (\<lambda>option tbl. setProperty tbl (name option) option) config tbl k = None"
proof (induction config arbitrary: tbl)
  case Nil
  then show ?case by simp
next
  case (Cons a config)
  from Cons.prems have "setProperty tbl (name a) a k = None" by (simp add: setProperty_other)
  with Cons.IH[of "setProperty tbl (name a) a"] Cons.prems(1) show ?case by simp
qed

lemma buildOptions_None:
  "\<forall>opt \<in> set config. name opt \<noteq> k \<Longrightarrow> buildOptions config k = None"
  unfolding buildOptions_def by (rule buildOptions_fold_None) simp_all

lemma parse_total:
  assumes "\<forall>opt \<in> set config. name opt \<noteq> hasOwnPropertyName"
  shows "\<exists>r. parse str config = Inr r"
proof (cases "parse str config")
  case (Inl e)
  from parse_raises[OF Inl] buildOptions_None[OF assms] show ?thesis by simp
qed simp

lemma parse_result_nonnull: "parse str config = Inr r \<Longrightarrow> r_result r \<noteq> None"
  by (auto simp: parse_def finish_def split: sum.splits)



lemma storeValue_eq:
  assumes wf: "wellFormedTable opts" and st: "storedOk opts ro"
    and tbl: "opts (name opt) = Some opt" and nohop: "opts hasOwnPropertyName = None"
  shows "storeValue opt x ro =
         Inr (ro(name opt \<mapsto>
                (if multiple opt
                 then Values ((case ro (name opt) of Some (Values vs) \<Rightarrow> vs | _ \<Rightarrow> []) @ [x])
                 else Value x)))"
proof -
  from wellFormedTableD[OF wf tbl] have np: "name opt \<noteq> protoName" by simp
  have nh: "ro hasOwnPropertyName = None" by (rule storedOk_noshadow[OF st])
  show ?thesis
  proof (cases "multiple opt")
    case False
    then show ?thesis using np by (simp add: storeValue_def setProperty_def)
  next
    case True
    show ?thesis
    proof (cases "ro (name opt)")
      case None
      then show ?thesis
        using True np nh by (simp add: storeValue_def setProperty_def hasOwnProperty_def)
    next
      case (Some w)
      from storedOkD[OF st Some] tbl True obtain vs where w: "w = Values vs" by auto
      then show ?thesis
        using True Some np nh by (simp add: storeValue_def setProperty_def hasOwnProperty_def)
    qed
  qed
qed

section \<open>C2: \<open>parse\<close> never raises\<close>

text \<open>
  The explicit \<open>logic error\<close> of line 116 is unreachable (\<open>parse_no_logic_error\<close>), the result
  is never \<open>null\<close> (\<open>parse_result_nonnull\<close>), and \<open>parse\<close> returns for every input whenever no
  option of the schema is named \<open>hasOwnProperty\<close> (\<open>parse_total\<close>). The only exception that
  escapes is the \<open>TypeError\<close> of line 292 (\<open>parse_raises\<close>).
\<close>

text \<open>
  C2 (fails on the code): \<open>parse\<close> is claimed to return for every input and every schema.
  With the schema \<open>[{name: "hasOwnProperty", type: "string"}]\<close> and the input \<open>a:\<close>, the
  lookup table has an own property \<open>hasOwnProperty\<close>, the call
  \<open>options.hasOwnProperty(currentValue)\<close> of line 292 calls an object, and \<open>parse\<close> throws
  \<open>TypeError\<close> instead of returning.
\<close>

theorem parse_throws_on_shadowed_hasOwnProperty:
  "parse (js ''a:'') [\<lparr>name = js ''hasOwnProperty'', multiple = False, otype = TString\<rparr>]
     = Inl TypeError"
  by (simp add: scan_eval)

section \<open>C10: the content of \<open>Space\<close> tokens\<close>

lemma spaceTokensOk_append [simp]:
  "spaceTokensOk (ts @ us) \<longleftrightarrow> spaceTokensOk ts \<and> spaceTokensOk us"
  by (auto simp: spaceTokensOk_def)

lemma spaceTokensOk_Cons [simp]:
  "spaceTokensOk (t # ts) \<longleftrightarrow> (ttype t = Space \<longrightarrow> content t = [spaceChar]) \<and> spaceTokensOk ts"
  "spaceTokensOk []"
  by (simp_all add: spaceTokensOk_def)

lemma completeOptionValue_spaces:
  assumes "completeOptionValue st = Inr st'" and "spaceTokensOk (tokens st)"
  shows "spaceTokensOk (tokens st')"
  using completeOptionValue_tokens[OF assms(1)] assms(2) by auto

lemma stepQuoted_spaces:
  assumes "stepQuoted i c st = Inr st'" and "spaceTokensOk (tokens st)"
  shows "spaceTokensOk (tokens st')"
  using assms
  by (auto simp: stepQuoted_def Let_def split: if_splits option.splits sum.splits
           dest!: completeOptionValue_spaces)

lemma completeThenInvalid_spaces:
  assumes "completeThenInvalid c st = Inr st'" and "spaceTokensOk (tokens st)"
  shows "spaceTokensOk (tokens st')"
  using assms
  by (auto simp: completeThenInvalid_def split: sum.splits dest!: completeOptionValue_spaces)

lemma stepOptionValue_spaces:
  assumes "stepOptionValue i c st = Inr st'" and "spaceTokensOk (tokens st)"
  shows "spaceTokensOk (tokens st')"
  using assms
  by (auto simp: stepOptionValue_def split: if_splits sum.splits
           dest!: completeOptionValue_spaces completeThenInvalid_spaces)

lemma stepBare_spaces:
  assumes "stepBare opts i c st = Inr st'" and "spaceTokensOk (tokens st)"
  shows "spaceTokensOk (tokens st')"
proof (cases "c = colonChar")
  case True
  with assms(1) have "stepColon opts i st = Inr st'" by simp
  then show ?thesis using assms(2) by (cases rule: stepColon_InrE) simp_all
next
  case False
  with assms show ?thesis
    by (auto simp: stepBare_def Let_def split: if_splits)
qed

lemma step_spaces:
  assumes "step opts i c st = Inr st'" and "spaceTokensOk (tokens st)"
  shows "spaceTokensOk (tokens st')"
  using assms stepQuoted_spaces stepOptionValue_spaces stepBare_spaces
  by (auto simp: step_def split: if_splits)

lemma scan_spaces:
  "scan opts i cs st = Inr st' \<Longrightarrow> spaceTokensOk (tokens st) \<Longrightarrow> spaceTokensOk (tokens st')"
proof (induction cs arbitrary: i st)
  case Nil
  then show ?case by simp
next
  case (Cons c cs)
  from Cons.prems(1) obtain st1 where s1: "step opts i c st = Inr st1"
    and r: "scan opts (Suc i) cs st1 = Inr st'"
    by (auto split: sum.splits)
  from Cons.IH[OF r step_spaces[OF s1 Cons.prems(2)]] show ?case .
qed

lemma endOfInput_spaces:
  assumes "endOfInput n st = Inr st'" and "spaceTokensOk (tokens st)"
  shows "spaceTokensOk (tokens st')"
  using assms
  by (auto simp: endOfInput_def Let_def split: if_splits sum.splits
           dest!: completeOptionValue_spaces)

text \<open>
  C10: every token of kind \<open>Space\<close> that \<open>parse\<close> returns has the one-character content
  \<open>" "\<close>, whichever white-space character was read (lines 247 and 269 overwrite the token
  text with a space before the token is completed).
\<close>

theorem space_tokens_are_one_space:
  assumes "parse str config = Inr r" and "t \<in> set (r_tokens r)" and "ttype t = Space"
  shows "content t = [spaceChar]"
proof -
  from assms(1) obtain st1 st2 where sc: "scan (buildOptions config) 0 str initState = Inr st1"
    and e: "endOfInput (length str) st1 = Inr st2" and r: "r_tokens r = tokens st2"
    by (auto simp: parse_def finish_def split: sum.splits)
  have "spaceTokensOk (tokens initState)" by (simp add: initState_def spaceTokensOk_def)
  from endOfInput_spaces[OF e scan_spaces[OF sc this]] assms(2,3) r show ?thesis
    by (simp add: spaceTokensOk_def)
qed

theorem space_tokens_are_one_space_witness:
  "\<exists>r t. parse [0x09] [] = Inr r \<and> t \<in> set (r_tokens r) \<and> ttype t = Space \<and>
         content t = [spaceChar] \<and> content t \<noteq> [0x09]"
proof -
  have p: "parse [0x09] [] = Inr \<lparr>r_tokens = [\<lparr>ttype = Space, content = [spaceChar], suggest = SuggestOptions\<rparr>],
             r_error = None, r_result = Some \<lparr>ptext = [], options = Map.empty\<rparr>\<rparr>"
    by (simp add: scan_eval)
  let ?t = "\<lparr>ttype = Space, content = [spaceChar], suggest = SuggestOptions\<rparr>"
  from p have m: "?t \<in> set (r_tokens (\<lparr>r_tokens = [?t], r_error = None, r_result = Some \<lparr>ptext = [], options = Map.empty\<rparr>\<rparr>))"
    by simp
  from space_tokens_are_one_space[OF p m] p show ?thesis by simp
qed

section \<open>C1: the token contents and the input\<close>

text \<open>The raw text accounted for so far: the completed tokens and the pending token text.\<close>

lemma completeOptionValue_raw:
  assumes "completeOptionValue st = Inr st'"
  shows "concat (map content (tokens st')) = concat (map content (tokens st)) @ currentTokenText st"
    and "currentTokenText st' = []"
  using completeOptionValue_fields(1,2)[OF assms] by auto

lemma completeOptionValue_raw2:
  assumes "completeOptionValue st = Inr st'"
  shows "concat (map content (tokens st')) = concat (map content (tokens st)) @ currentTokenText st
         \<and> currentTokenText st' = []"
  using completeOptionValue_raw[OF assms] by simp

lemma completeThenInvalid_raw:
  assumes "completeThenInvalid c st = Inr st'"
  shows "concat (map content (tokens st')) @ currentTokenText st' =
         concat (map content (tokens st)) @ currentTokenText st @ [c]"
  using assms
  by (auto simp: completeThenInvalid_def split: sum.splits dest!: completeOptionValue_raw(1))

lemma stepQuoted_raw:
  assumes "stepQuoted i c st = Inr st'"
  shows "concat (map content (tokens st')) @ currentTokenText st' =
         concat (map content (tokens st)) @ currentTokenText st @ [c]"
proof (cases "\<not> escaped st \<and> c = quoteChar \<and> inOptionValue st")
  case True
  with assms obtain st2 where c2: "completeOptionValue (st\<lparr>currentTokenText := currentTokenText st @ [quoteChar]\<rparr>) = Inr st2"
    and st': "st' = st2\<lparr>inQuotes := False\<rparr>"
    by (auto simp: stepQuoted_def Let_def split: sum.splits)
  from completeOptionValue_raw[OF c2] True show ?thesis by (simp add: st')
next
  case False
  with assms show ?thesis
    by (auto simp: stepQuoted_def Let_def split: if_splits option.splits)
qed

lemma stepOptionValue_raw:
  assumes "stepOptionValue i c st = Inr st'"
  shows "concat (map content (tokens st')) @ currentTokenText st' =
         concat (map content (tokens st)) @ currentTokenText st @ [if isSpace c then spaceChar else c]"
proof (cases "c \<noteq> quoteChar \<and> isSpace c")
  case True
  with assms obtain st1 where c1: "completeOptionValue st = Inr st1"
    and st': "st' = completeToken Space (st1\<lparr>currentTokenText := [spaceChar]\<rparr>)"
    by (auto simp: stepOptionValue_def split: sum.splits)
  from completeOptionValue_raw[OF c1] True show ?thesis by (simp add: st')
next
  case False
  with assms show ?thesis
    by (auto simp: stepOptionValue_def split: if_splits dest!: completeThenInvalid_raw)
qed

lemma stepColon_raw:
  assumes "stepColon opts i st = Inr st'"
  shows "concat (map content (tokens st')) @ currentTokenText st' =
         concat (map content (tokens st)) @ currentTokenText st @ [colonChar]"
  using assms by (cases rule: stepColon_InrE) simp_all

lemma stepBare_raw:
  assumes "stepBare opts i c st = Inr st'"
    and "\<not> (c = backslashChar \<and> currentTokenText st \<noteq> [])"
  shows "concat (map content (tokens st')) @ currentTokenText st' =
         concat (map content (tokens st)) @ currentTokenText st @ [if isSpace c then spaceChar else c]"
proof (cases "c = colonChar")
  case True
  with assms(1) stepColon_raw[of opts i st st'] show ?thesis by simp
next
  case False
  with assms show ?thesis
    by (auto simp: stepBare_def Let_def split: if_splits)
qed

lemma step_raw:
  assumes "step opts i c st = Inr st'"
    and "\<not> (\<not> inQuotes st \<and> \<not> inOptionValue st \<and> c = backslashChar \<and> currentTokenText st \<noteq> [])"
  shows "concat (map content (tokens st')) @ currentTokenText st' =
         concat (map content (tokens st)) @ currentTokenText st @
         [if \<not> inQuotes st \<and> isSpace c then spaceChar else c]"
proof (cases "inQuotes st")
  case True
  with assms(1) stepQuoted_raw[of i c st st'] show ?thesis by (simp add: step_def)
next
  case nq: False
  show ?thesis
  proof (cases "inOptionValue st")
    case True
    with nq assms(1) stepOptionValue_raw[of i c st st'] show ?thesis by (simp add: step_def)
  next
    case False
    with nq assms stepBare_raw[of opts i c st st'] show ?thesis by (simp add: step_def)
  qed
qed

lemma scan_raw:
  "scan opts i cs st = Inr st' \<Longrightarrow> \<not> dropsPendingText opts i cs st \<Longrightarrow>
   concat (map content (tokens st')) @ currentTokenText st' =
   concat (map content (tokens st)) @ currentTokenText st @ renderedText opts i cs st"
proof (induction cs arbitrary: i st)
  case Nil
  then show ?case by simp
next
  case (Cons c cs)
  from Cons.prems(1) obtain st1 where s1: "step opts i c st = Inr st1"
    and r: "scan opts (Suc i) cs st1 = Inr st'"
    by (auto split: sum.splits)
  from Cons.prems(2) s1 have nd: "\<not> (\<not> inQuotes st \<and> \<not> inOptionValue st \<and> c = backslashChar \<and> currentTokenText st \<noteq> [])"
    and nd': "\<not> dropsPendingText opts (Suc i) cs st1" by auto
  from Cons.IH[OF r nd'] step_raw[OF s1 nd] s1 show ?case by simp
qed

text \<open>The pending-text invariant.\<close>

lemma stepQuoted_pending:
  assumes "stepQuoted i c st = Inr st'" and "inQuotes st"
  shows "pendingInv st'"
proof (cases "\<not> escaped st \<and> c = quoteChar \<and> inOptionValue st")
  case True
  with assms obtain st2 where c2: "completeOptionValue (st\<lparr>currentTokenText := currentTokenText st @ [quoteChar]\<rparr>) = Inr st2"
    and st': "st' = st2\<lparr>inQuotes := False\<rparr>"
    by (auto simp: stepQuoted_def Let_def split: sum.splits)
  from completeOptionValue_fields(2)[OF c2] show ?thesis by (simp add: st' pendingInv_def)
next
  case False
  with assms show ?thesis
    by (auto simp: stepQuoted_def Let_def pendingInv_def split: if_splits option.splits)
qed

lemma completeThenInvalid_pending:
  assumes "completeThenInvalid c st = Inr st'"
  shows "currentTokenText st' = []"
  using assms by (auto simp: completeThenInvalid_def split: sum.splits)

lemma stepOptionValue_pending:
  assumes "stepOptionValue i c st = Inr st'" and "inOptionValue st"
  shows "pendingInv st'"
  using assms
  by (auto simp: stepOptionValue_def pendingInv_def split: if_splits sum.splits
           dest!: completeThenInvalid_pending)

lemma stepBare_pending:
  assumes "stepBare opts i c st = Inr st'"
  shows "pendingInv st'"
proof (cases "c = colonChar")
  case True
  with assms have "stepColon opts i st = Inr st'" by simp
  then show ?thesis by (cases rule: stepColon_InrE) (simp_all add: pendingInv_def)
next
  case False
  with assms show ?thesis
    by (auto simp: stepBare_def Let_def pendingInv_def split: if_splits)
qed

lemma step_pending:
  assumes "step opts i c st = Inr st'"
  shows "pendingInv st'"
  using assms stepQuoted_pending stepOptionValue_pending stepBare_pending
  by (auto simp: step_def split: if_splits)

lemma scan_pending:
  "scan opts i cs st = Inr st' \<Longrightarrow> pendingInv st \<Longrightarrow> pendingInv st'"
proof (induction cs arbitrary: i st)
  case Nil
  then show ?case by simp
next
  case (Cons c cs)
  from Cons.prems(1) obtain st1 where s1: "step opts i c st = Inr st1"
    and r: "scan opts (Suc i) cs st1 = Inr st'"
    by (auto split: sum.splits)
  from Cons.IH[OF r step_pending[OF s1]] show ?case .
qed

lemma endOfInput_raw:
  assumes "endOfInput n st = Inr st'" and "pendingInv st"
  shows "concat (map content (tokens st')) = concat (map content (tokens st)) @ currentTokenText st"
proof (cases "inQuotes st \<or> inOptionValue st")
  case True
  with assms(1) show ?thesis
    by (auto simp: endOfInput_def Let_def split: if_splits sum.splits
             dest!: completeOptionValue_raw2)
next
  case False
  with assms show ?thesis
    by (auto simp: endOfInput_def Let_def pendingInv_def split: if_splits)
qed

lemma renderedText_id:
  "scan opts i cs st = Inr st' \<Longrightarrow> \<forall>c \<in> set cs. isSpace c \<longrightarrow> c = spaceChar \<Longrightarrow>
   renderedText opts i cs st = cs"
proof (induction cs arbitrary: i st)
  case Nil
  then show ?case by simp
next
  case (Cons c cs)
  from Cons.prems(1) obtain st1 where s1: "step opts i c st = Inr st1"
    and r: "scan opts (Suc i) cs st1 = Inr st'"
    by (auto split: sum.splits)
  from Cons.IH[OF r] Cons.prems(2) s1 show ?case by simp
qed

lemma pendingInv_init: "pendingInv initState"
  by (simp add: pendingInv_def initState_def)

text \<open>
  C1 as stated fails: the input consisting of one tab yields the single token \<open>Space " "\<close>,
  and the concatenated token text is a space, not the tab.
\<close>

theorem tab_is_not_reproduced:
  "map_sum id (concat \<circ> map content \<circ> r_tokens) (parse [0x09] []) = Inr [spaceChar]
   \<and> [spaceChar] \<noteq> [0x09 :: jschar]"
  by (simp add: scan_eval)

text \<open>
  A second way to lose input text: for \<open>ab\\<close> line 284 overwrites the pending \<open>ab\<close>, and
  the tokens are \<open>Invalid "\"\<close> and an empty \<open>Text\<close>. The sibling branch for a stray quote
  (line 278) completes the pending word first.
\<close>

lemma pending_word_is_dropped:
  "map_sum id (concat \<circ> map content \<circ> r_tokens) (parse (js ''ab'' @ [backslashChar]) [])
     = Inr [backslashChar]"
  by (simp add: scan_eval)

text \<open>
  C1 (amended): for every input and schema on which \<open>parse\<close> returns, provided the scan never
  reads a backslash in bare text while the text of a word is pending, the concatenation of
  the contents of all tokens, in order, is the input with every white-space character read
  outside quotes replaced by one ASCII space. In particular it is the input itself when
  every white-space character of the input is an ASCII space.
\<close>

theorem tokens_render_input:
  assumes "parse str config = Inr r"
    and "\<not> dropsPendingText (buildOptions config) 0 str initState"
  shows "concat (map content (r_tokens r)) = renderedText (buildOptions config) 0 str initState
       \<and> ((\<forall>c \<in> set str. isSpace c \<longrightarrow> c = spaceChar) \<longrightarrow>
            concat (map content (r_tokens r)) = str)"
proof -
  let ?opts = "buildOptions config"
  from assms(1) obtain st1 st2 where sc: "scan ?opts 0 str initState = Inr st1"
    and e: "endOfInput (length str) st1 = Inr st2" and r: "r_tokens r = tokens st2"
    by (auto simp: parse_def finish_def split: sum.splits)
  from scan_raw[OF sc assms(2)]
  have "concat (map content (tokens st1)) @ currentTokenText st1 = renderedText ?opts 0 str initState"
    by (simp add: initState_def)
  with endOfInput_raw[OF e scan_pending[OF sc pendingInv_init]] r
  have "concat (map content (r_tokens r)) = renderedText ?opts 0 str initState" by simp
  with renderedText_id[OF sc] show ?thesis by simp
qed

text \<open>
  Witness for C1: \<open>\ta\<close> renders as \<open>" a"\<close>, and \<open>t:"a b" c\<close> is reproduced exactly.
\<close>

theorem tokens_render_input_witness:
  "(\<exists>r. parse (0x09 # js ''a'') [] = Inr r \<and>
        concat (map content (r_tokens r)) = spaceChar # js ''a'') \<and>
   (\<exists>r. parse (js ''t:\"a b\" c'') [\<lparr>name = js ''t'', multiple = False, otype = TString\<rparr>] = Inr r \<and>
        (\<forall>c \<in> set (js ''t:\"a b\" c''). isSpace c \<longrightarrow> c = spaceChar) \<and>
        concat (map content (r_tokens r)) = js ''t:\"a b\" c'')"
proof -
  have t1: "\<exists>r. parse (0x09 # js ''a'') [] = Inr r"
    by (rule parse_total) simp
  then obtain r1 where p1: "parse (0x09 # js ''a'') [] = Inr r1" ..
  have d1: "\<not> dropsPendingText (buildOptions []) 0 (0x09 # js ''a'') initState"
    by (simp add: scan_eval)
  have r1: "renderedText (buildOptions []) 0 (0x09 # js ''a'') initState = spaceChar # js ''a''"
    by (simp add: scan_eval)
  let ?cfg = "[\<lparr>name = js ''t'', multiple = False, otype = TString\<rparr>]"
  have "\<exists>r. parse (js ''t:\"a b\" c'') ?cfg = Inr r"
    by (rule parse_total) (simp add: js_def hasOwnPropertyName_def)
  then obtain r2 where p2: "parse (js ''t:\"a b\" c'') ?cfg = Inr r2" ..
  have d2: "\<not> dropsPendingText (buildOptions ?cfg) 0 (js ''t:\"a b\" c'') initState"
    by (simp add: scan_eval)
  have s2: "\<forall>c \<in> set (js ''t:\"a b\" c''). isSpace c \<longrightarrow> c = spaceChar"
    by (simp add: js_def isSpace_def)
  from tokens_render_input[OF p1 d1] have "concat (map content (r_tokens r1)) =
      renderedText (buildOptions []) 0 (0x09 # js ''a'') initState" ..
  then have a1: "concat (map content (r_tokens r1)) = spaceChar # js ''a''"
    by (simp only: r1)
  from tokens_render_input[OF p2 d2] have "(\<forall>c \<in> set (js ''t:\"a b\" c''). isSpace c \<longrightarrow> c = spaceChar) \<longrightarrow>
      concat (map content (r_tokens r2)) = js ''t:\"a b\" c''" ..
  then have a2: "concat (map content (r_tokens r2)) = js ''t:\"a b\" c''"
    using s2 by (rule mp)
  show ?thesis
    by (intro conjI exI[of _ r1] exI[of _ r2]) (rule p1 a1 p2 s2 a2)+
qed

section \<open>C9: input without colon, quote or backslash\<close>

lemma splitOnWhitespace_Nil [simp]: "splitOnWhitespace [] = []"
  by (simp add: splitOnWhitespace.simps)

lemma splitOnWhitespace_space [simp]:
  "isSpace c \<Longrightarrow> splitOnWhitespace (c # cs) = splitOnWhitespace cs"
  by (simp add: splitOnWhitespace.simps[of "c # cs"] splitOnWhitespace.simps[of cs])

lemma splitOnWhitespace_word:
  assumes "w \<noteq> []" and "\<forall>x \<in> set w. \<not> isSpace x"
  shows "splitOnWhitespace w = [w]"
proof -
  from assms obtain a w' where w: "w = a # w'" and a: "\<not> isSpace a" by (cases w) auto
  have d: "dropWhile isSpace w = a # w'" using w a by simp
  have t: "takeWhile (\<lambda>x. \<not> isSpace x) (a # w') = w" using assms(2) w by simp
  have e: "dropWhile (\<lambda>x. \<not> isSpace x) (a # w') = []" using assms(2) w by simp
  show ?thesis
    by (subst splitOnWhitespace.simps) (simp only: d t e list.case splitOnWhitespace_Nil)
qed

lemma splitOnWhitespace_word_space:
  assumes "w \<noteq> []" and "\<forall>x \<in> set w. \<not> isSpace x" and "isSpace c"
  shows "splitOnWhitespace (w @ c # cs) = w # splitOnWhitespace cs"
proof -
  from assms obtain a w' where w: "w = a # w'" and a: "\<not> isSpace a" by (cases w) auto
  have d: "dropWhile isSpace (w @ c # cs) = a # (w' @ c # cs)" using w a by simp
  have t: "takeWhile (\<lambda>x. \<not> isSpace x) (a # (w' @ c # cs)) = w"
    using assms(2,3) w by (simp add: takeWhile_append2)
  have e: "dropWhile (\<lambda>x. \<not> isSpace x) (a # (w' @ c # cs)) = c # cs"
    using assms(2,3) w by (simp add: dropWhile_append2)
  have "splitOnWhitespace (w @ c # cs) = w # splitOnWhitespace (c # cs)"
    by (subst splitOnWhitespace.simps) (simp only: d t e list.case)
  with assms(3) show ?thesis by simp
qed

lemma stepBare_plain:
  assumes "c \<noteq> colonChar" "c \<noteq> quoteChar" "c \<noteq> backslashChar"
  shows "stepBare opts i c st =
     (if isSpace c then
        Inr ((completeToken Space
               ((if currentTokenText st \<noteq> []
                 then (completeToken Text st)\<lparr>result := (result st)\<lparr>ptext := ptext (result st) @ [currentValue st]\<rparr>\<rparr>
                 else st)\<lparr>currentTokenText := [spaceChar]\<rparr>))\<lparr>currentValue := []\<rparr>)
      else Inr (st\<lparr>currentTokenText := currentTokenText st @ [c],
                   currentValue := currentValue st @ [c]\<rparr>))"
  using assms by (simp add: stepBare_def Let_def)

lemma scan_plain:
  assumes "colonChar \<notin> set cs" "quoteChar \<notin> set cs" "backslashChar \<notin> set cs"
    and "\<not> inQuotes st" "\<not> inOptionValue st" "currentTokenText st = currentValue st"
    and "\<forall>x \<in> set (currentValue st). \<not> isSpace x"
  shows "\<exists>st'. scan opts i cs st = Inr st' \<and> \<not> inQuotes st' \<and> \<not> inOptionValue st' \<and>
           options (result st') = options (result st) \<and>
           ptext (result st') @ (if currentValue st' = [] then [] else [currentValue st']) =
           ptext (result st) @ splitOnWhitespace (currentValue st @ cs)"
  using assms
proof (induction cs arbitrary: i st)
  case Nil
  then show ?case by (simp add: splitOnWhitespace_word)
next
  case (Cons c cs)
  from Cons.prems have c: "c \<noteq> colonChar" "c \<noteq> quoteChar" "c \<noteq> backslashChar"
    and cs: "colonChar \<notin> set cs" "quoteChar \<notin> set cs" "backslashChar \<notin> set cs" by auto
  show ?case
  proof (cases "isSpace c")
    case True
    let ?st1 = "(completeToken Space
               ((if currentTokenText st \<noteq> []
                 then (completeToken Text st)\<lparr>result := (result st)\<lparr>ptext := ptext (result st) @ [currentValue st]\<rparr>\<rparr>
                 else st)\<lparr>currentTokenText := [spaceChar]\<rparr>))\<lparr>currentValue := []\<rparr>"
    have s1: "step opts i c st = Inr ?st1"
      using Cons.prems(4,5) True by (simp add: step_def stepBare_plain[OF c])
    have pre: "\<not> inQuotes ?st1" "\<not> inOptionValue ?st1" "currentTokenText ?st1 = currentValue ?st1"
      "\<forall>x \<in> set (currentValue ?st1). \<not> isSpace x"
      using Cons.prems(4,5) by simp_all
    from Cons.IH[OF cs pre, of "Suc i"] obtain st' where
      sc: "scan opts (Suc i) cs ?st1 = Inr st'" and b: "\<not> inQuotes st'" "\<not> inOptionValue st'"
      and o: "options (result st') = options (result ?st1)"
      and p: "ptext (result st') @ (if currentValue st' = [] then [] else [currentValue st']) =
              ptext (result ?st1) @ splitOnWhitespace (currentValue ?st1 @ cs)" by blast
    have sp: "ptext (result ?st1) @ splitOnWhitespace cs =
              ptext (result st) @ splitOnWhitespace (currentValue st @ c # cs)"
    proof (cases "currentValue st = []")
      case True
      with Cons.prems(6) \<open>isSpace c\<close> show ?thesis by simp
    next
      case False
      with Cons.prems(6,7) \<open>isSpace c\<close> show ?thesis
        by (simp add: splitOnWhitespace_word_space)
    qed
    have o1: "options (result ?st1) = options (result st)" by simp
    from s1 sc b o p sp o1 show ?thesis by simp
  next
    case False
    let ?st1 = "st\<lparr>currentTokenText := currentTokenText st @ [c],
                   currentValue := currentValue st @ [c]\<rparr>"
    have s1: "step opts i c st = Inr ?st1"
      using Cons.prems(4,5) False by (simp add: step_def stepBare_plain[OF c])
    have pre: "\<not> inQuotes ?st1" "\<not> inOptionValue ?st1" "currentTokenText ?st1 = currentValue ?st1"
      "\<forall>x \<in> set (currentValue ?st1). \<not> isSpace x"
      using Cons.prems(4,5,6,7) False by simp_all
    from Cons.IH[OF cs pre, of "Suc i"] s1 show ?thesis by simp
  qed
qed

text \<open>
  C9: for every input with no colon, no quote and no backslash, and for every schema,
  \<open>parse\<close> returns, its free text is the input split on white-space runs (the non-empty
  words, in input order), and \<open>result.options\<close> has no entry.
\<close>

theorem plain_input_splits_on_whitespace:
  assumes "colonChar \<notin> set str" and "quoteChar \<notin> set str" and "backslashChar \<notin> set str"
  shows "\<exists>r res. parse str config = Inr r \<and> r_result r = Some res \<and>
           ptext res = splitOnWhitespace str \<and> options res = Map.empty"
proof -
  have pre: "\<not> inQuotes initState" "\<not> inOptionValue initState"
    "currentTokenText initState = currentValue initState"
    "\<forall>x \<in> set (currentValue initState). \<not> isSpace x"
    by (simp_all add: initState_def)
  from scan_plain[OF assms pre, of "buildOptions config" 0] obtain st' where
    sc: "scan (buildOptions config) 0 str initState = Inr st'"
    and b: "\<not> inQuotes st'" "\<not> inOptionValue st'"
    and o: "options (result st') = options (result initState)"
    and p: "ptext (result st') @ (if currentValue st' = [] then [] else [currentValue st']) =
            ptext (result initState) @ splitOnWhitespace (currentValue initState @ str)" by blast
  from p have p': "ptext (result st') @ (if currentValue st' = [] then [] else [currentValue st']) =
            splitOnWhitespace str" by (simp add: initState_def)
  from o have o': "options (result st') = Map.empty" by (simp add: initState_def)
  show ?thesis
    using sc b p' o' by (auto simp: parse_def finish_def endOfInput_def)
qed

text \<open>Witness for C9: a tab, \<open>ab\<close>, two spaces, \<open>c\<close> and a space give the words \<open>ab\<close> and \<open>c\<close>.\<close>

theorem plain_input_splits_on_whitespace_witness:
  "colonChar \<notin> set (0x09 # js ''ab  c '') \<and> quoteChar \<notin> set (0x09 # js ''ab  c '') \<and>
   backslashChar \<notin> set (0x09 # js ''ab  c '') \<and>
   (\<exists>r res. parse (0x09 # js ''ab  c '') [\<lparr>name = js ''ab'', multiple = False, otype = TString\<rparr>] = Inr r \<and>
      r_result r = Some res \<and> ptext res = [js ''ab'', js ''c''] \<and> options res = Map.empty)"
proof -
  have h: "colonChar \<notin> set (0x09 # js ''ab  c '')" "quoteChar \<notin> set (0x09 # js ''ab  c '')"
    "backslashChar \<notin> set (0x09 # js ''ab  c '')"
    by (simp_all add: js_def)
  have w: "splitOnWhitespace (0x09 # js ''ab  c '') = [js ''ab'', js ''c'']"
    by (simp add: splitOnWhitespace.simps js_def isSpace_def)
  from plain_input_splits_on_whitespace[OF h] h w show ?thesis by simp
qed

section \<open>C3: the first error and the rest of the scan\<close>

lemma parseError_noop: "error st = Some e \<Longrightarrow> parseError p t st = st"
  by (simp add: parseError_def)

lemma setError_fields [simp]:
  "tokens (setError x st) = tokens st"
  "result (setError x st) = result st"
  "error (setError x st) = x"
  "currentTokenText (setError x st) = currentTokenText st"
  "currentValue (setError x st) = currentValue st"
  "inQuotes (setError x st) = inQuotes st"
  "escaped (setError x st) = escaped st"
  "inOptionValue (setError x st) = inOptionValue st"
  "currentOption (setError x st) = currentOption st"
  by (simp_all add: setError_def)

lemma setError_updates [simp]:
  "(setError x st)\<lparr>tokens := a\<rparr> = setError x (st\<lparr>tokens := a\<rparr>)"
  "(setError x st)\<lparr>result := b\<rparr> = setError x (st\<lparr>result := b\<rparr>)"
  "(setError x st)\<lparr>currentTokenText := c\<rparr> = setError x (st\<lparr>currentTokenText := c\<rparr>)"
  "(setError x st)\<lparr>currentValue := d\<rparr> = setError x (st\<lparr>currentValue := d\<rparr>)"
  "(setError x st)\<lparr>inQuotes := f\<rparr> = setError x (st\<lparr>inQuotes := f\<rparr>)"
  "(setError x st)\<lparr>escaped := g\<rparr> = setError x (st\<lparr>escaped := g\<rparr>)"
  "(setError x st)\<lparr>inOptionValue := h\<rparr> = setError x (st\<lparr>inOptionValue := h\<rparr>)"
  "(setError x st)\<lparr>currentOption := k\<rparr> = setError x (st\<lparr>currentOption := k\<rparr>)"
  by (simp_all add: setError_def)

lemma setError_twice [simp]: "setError x (setError y st) = setError x st"
  by (simp add: setError_def)

lemma completeToken_setError [simp]:
  "completeToken ty (setError x st) = setError x (completeToken ty st)"
  by (simp add: completeToken_def setError_def)

lemma parseError_setError [simp]:
  "parseError p t (setError (Some e) st) = setError (Some e) st"
  "setError (Some e) (parseError p t st) = setError (Some e) st"
  by (simp_all add: parseError_def setError_def)

lemma completeOptionValue_setError [simp]:
  "completeOptionValue (setError x st) = map_sum id (setError x) (completeOptionValue st)"
  by (simp add: completeOptionValue_def split: option.splits prod.splits sum.splits)

lemma completeThenInvalid_setError [simp]:
  "completeThenInvalid c (setError x st) = map_sum id (setError x) (completeThenInvalid c st)"
  by (cases "completeOptionValue st") (simp_all add: completeThenInvalid_def)

lemma stepQuoted_setError:
  "stepQuoted i c (setError (Some e) st) = map_sum id (setError (Some e)) (stepQuoted i c st)"
  by (cases "completeOptionValue (st\<lparr>currentTokenText := currentTokenText st @ [quoteChar]\<rparr>)")
     (simp_all add: stepQuoted_def Let_def split: option.splits)

lemma stepOptionValue_setError:
  "stepOptionValue i c (setError (Some e) st) = map_sum id (setError (Some e)) (stepOptionValue i c st)"
proof -
  have a: "map_sum id (setError (Some e)) (completeThenInvalid d (parseError p t st)) =
     map_sum id (setError (Some e)) (completeThenInvalid d st)" for d p t
  proof -
    have "map_sum id (setError (Some e)) (completeThenInvalid d (parseError p t st)) =
          completeThenInvalid d (setError (Some e) (parseError p t st))"
      by (simp only: completeThenInvalid_setError)
    also have "\<dots> = completeThenInvalid d (setError (Some e) st)"
      by (simp only: parseError_setError)
    also have "\<dots> = map_sum id (setError (Some e)) (completeThenInvalid d st)"
      by (simp only: completeThenInvalid_setError)
    finally show ?thesis .
  qed
  show ?thesis
    by (cases "completeOptionValue st") (simp_all add: stepOptionValue_def a)
qed

lemma stepColon_setError:
  "stepColon opts i (setError (Some e) st) = map_sum id (setError (Some e)) (stepColon opts i st)"
  by (simp add: stepColon_def Let_def split: sum.splits option.splits)

lemma stepBare_setError:
  "stepBare opts i c (setError (Some e) st) = map_sum id (setError (Some e)) (stepBare opts i c st)"
  by (simp add: stepBare_def Let_def stepColon_setError)

lemma step_setError:
  "step opts i c (setError (Some e) st) = map_sum id (setError (Some e)) (step opts i c st)"
  by (simp add: step_def stepQuoted_setError stepOptionValue_setError stepBare_setError)

lemma scan_setError:
  "scan opts i cs (setError (Some e) st) = map_sum id (setError (Some e)) (scan opts i cs st)"
proof (induction cs arbitrary: i st)
  case Nil
  then show ?case by simp
next
  case (Cons c cs)
  show ?case
    by (cases "step opts i c st") (simp_all add: step_setError Cons.IH)
qed

lemma endOfInput_setError:
  "endOfInput n (setError (Some e) st) = map_sum id (setError (Some e)) (endOfInput n st)"
proof (cases "inQuotes st \<and> inOptionValue st")
  case True
  then show ?thesis
    by (cases "completeOptionValue (completeToken Text st)") (simp_all add: endOfInput_def Let_def)
next
  case False
  then show ?thesis
    by (cases "completeOptionValue st") (auto simp add: endOfInput_def Let_def)
qed

lemma finish_setError:
  "finish opts i cs (setError (Some e) st) =
   map_sum id (\<lambda>r. r\<lparr>r_error := Some e\<rparr>) (finish opts i cs st)"
proof (cases "scan opts i cs st")
  case (Inl x)
  then show ?thesis by (simp add: finish_def scan_setError)
next
  case (Inr st1)
  then show ?thesis
    by (cases "endOfInput (i + length cs) st1")
       (simp_all add: finish_def scan_setError endOfInput_setError)
qed

lemma scan_append:
  "scan opts i (xs @ ys) st =
   (case scan opts i xs st of Inl e \<Rightarrow> Inl e | Inr st1 \<Rightarrow> scan opts (i + length xs) ys st1)"
  by (induction xs arbitrary: i st) (simp_all split: sum.splits)

lemma finish_append:
  "scan opts i xs st = Inr st1 \<Longrightarrow> finish opts i (xs @ ys) st = finish opts (i + length xs) ys st1"
  by (simp add: finish_def scan_append add.assoc split: sum.splits)

text \<open>
  What holds of the error policy. If the scan of a prefix \<open>s1\<close> of the input has recorded the
  error \<open>e\<close>, every later call of \<open>parseError\<close> leaves the state as it is, and the whole parse
  is the parse that continues on the rest of the input as if no error had been recorded, with
  \<open>e\<close> in place of its error. The equation also covers the continuation that throws.
\<close>

lemma recorded_error_is_kept:
  assumes "scan (buildOptions config) 0 s1 initState = Inr st1" and "error st1 = Some e"
  shows "parseError p t st1 = st1 \<and>
         parse (s1 @ s2) config =
           map_sum id (\<lambda>r. r\<lparr>r_error := Some e\<rparr>)
             (finish (buildOptions config) (length s1) s2 (setError None st1))"
proof -
  have "setError (Some e) (setError None st1) = st1" using assms(2) by (simp add: setError_def)
  with finish_setError[of "buildOptions config" "length s1" s2 e "setError None st1"]
  have "finish (buildOptions config) (length s1) s2 st1 =
        map_sum id (\<lambda>r. r\<lparr>r_error := Some e\<rparr>)
          (finish (buildOptions config) (length s1) s2 (setError None st1))" by simp
  with finish_append[OF assms(1), of s2] parseError_noop[OF assms(2)] show ?thesis
    by (simp add: parse_def)
qed

text \<open>
  With no option named \<open>hasOwnProperty\<close> in the schema the parse returns, the error returned
  is the first one recorded, and tokens and result are those of the continuation.
\<close>

lemma first_error_is_returned:
  assumes "scan (buildOptions config) 0 s1 initState = Inr st1" and "error st1 = Some e"
    and "\<forall>opt \<in> set config. name opt \<noteq> hasOwnPropertyName"
  shows "\<exists>r r0. parse (s1 @ s2) config = Inr r \<and> r_error r = Some e \<and>
           finish (buildOptions config) (length s1) s2 (setError None st1) = Inr r0 \<and>
           r_tokens r = r_tokens r0 \<and> r_result r = r_result r0"
proof -
  from parse_total[OF assms(3), of "s1 @ s2"] obtain r where p: "parse (s1 @ s2) config = Inr r" ..
  from recorded_error_is_kept[OF assms(1,2), of 0 "[]" s2] p
  have m: "map_sum id (\<lambda>r. r\<lparr>r_error := Some e\<rparr>)
             (finish (buildOptions config) (length s1) s2 (setError None st1)) = Inr r" by simp
  then obtain r0 where f: "finish (buildOptions config) (length s1) s2 (setError None st1) = Inr r0"
    by (cases "finish (buildOptions config) (length s1) s2 (setError None st1)") simp_all
  with m have "r = r0\<lparr>r_error := Some e\<rparr>" by simp
  with p f show ?thesis by simp
qed

text \<open>
  In \<open>:\"\<close> the colon records the first error at position 0; the backslash and the missing
  quote would record errors of their own, and the scan still yields all four tokens.
\<close>

lemma recorded_error_is_kept_example:
  "\<exists>st1 r. scan (buildOptions []) 0 (js '':'') initState = Inr st1 \<and>
     error st1 = Some \<lparr>position = 0, etext = ''unexpected colon character''\<rparr> \<and>
     parseError 1 ''unexpected escape character'' st1 = st1 \<and>
     parse (js '':'' @ [backslashChar, quoteChar]) [] = Inr r \<and>
     r_error r = Some \<lparr>position = 0, etext = ''unexpected colon character''\<rparr> \<and>
     map ttype (r_tokens r) = [Invalid, Invalid, Text, MissingQuote]"
proof -
  let ?e = "\<lparr>position = 0, etext = ''unexpected colon character''\<rparr>"
  let ?st1 = "initState\<lparr>tokens := [\<lparr>ttype = Invalid, content = js '':'', suggest = SuggestNone\<rparr>],
                error := Some ?e\<rparr>"
  have sc: "scan (buildOptions []) 0 (js '':'') initState = Inr ?st1"
    by (simp add: scan_eval)
  have e: "error ?st1 = Some ?e" by simp
  have f: "finish (buildOptions []) (length (js '':'')) [backslashChar, quoteChar] (setError None ?st1)
     = Inr \<lparr>r_tokens = [\<lparr>ttype = Invalid, content = js '':'', suggest = SuggestNone\<rparr>,
                       \<lparr>ttype = Invalid, content = [backslashChar], suggest = SuggestNone\<rparr>,
                       \<lparr>ttype = Text, content = [quoteChar], suggest = SuggestOptions\<rparr>,
                       \<lparr>ttype = MissingQuote, content = [], suggest = SuggestNone\<rparr>],
             r_error = Some \<lparr>position = 1, etext = ''unexpected escape character''\<rparr>,
             r_result = Some \<lparr>ptext = [[]], options = Map.empty\<rparr>\<rparr>"
    by (simp add: scan_eval setError_def)
  from recorded_error_is_kept[OF sc e, of 1 "''unexpected escape character''" "[backslashChar, quoteChar]"]
  have a: "parseError 1 ''unexpected escape character'' ?st1 = ?st1"
    and b: "parse (js '':'' @ [backslashChar, quoteChar]) [] =
       Inr \<lparr>r_tokens = [\<lparr>ttype = Invalid, content = js '':'', suggest = SuggestNone\<rparr>,
                       \<lparr>ttype = Invalid, content = [backslashChar], suggest = SuggestNone\<rparr>,
                       \<lparr>ttype = Text, content = [quoteChar], suggest = SuggestOptions\<rparr>,
                       \<lparr>ttype = MissingQuote, content = [], suggest = SuggestNone\<rparr>],
             r_error = Some ?e,
             r_result = Some \<lparr>ptext = [[]], options = Map.empty\<rparr>\<rparr>"
    by (simp_all only: f map_sum.simps ParseResult.simps)
  show ?thesis
    by (rule exI[of _ ?st1], rule exI, intro conjI, rule sc, rule e, rule a, rule b) simp_all
qed

text \<open>
  C3 (fails on the code): once an error is recorded the scan is claimed to run to its end
  for every input and schema, and \<open>parse\<close> to return that first error. With the schema
  \<open>[{name: "hasOwnProperty", type: "string"}]\<close> and the input \<open>\a:\<close>, the backslash records
  \<open>unexpected escape character\<close> at position 0 (line 283), and at the colon the call
  \<open>options.hasOwnProperty(currentValue)\<close> of line 292 throws \<open>TypeError\<close>: the scan stops two
  characters later and no error is returned as data. This is the defect of C2.
\<close>

theorem recorded_error_then_throw:
  "map_sum id error
     (scan (buildOptions [\<lparr>name = js ''hasOwnProperty'', multiple = False, otype = TString\<rparr>]) 0
        [backslashChar] initState)
     = Inr (Some \<lparr>position = 0, etext = ''unexpected escape character''\<rparr>)
   \<and> parse (backslashChar # js ''a:'')
       [\<lparr>name = js ''hasOwnProperty'', multiple = False, otype = TString\<rparr>]
     = Inl TypeError"
  by (simp add: scan_eval)

section \<open>C5: a repeated non-multiple option\<close>

text \<open>The example of the specification (section 8), run on the model.\<close>

lemma repeated_option_example:
  "\<exists>r res. parse (js ''tag:a tag:b'') [\<lparr>name = js ''tag'', multiple = False, otype = TString\<rparr>] = Inr r \<and>
     r_result r = Some res \<and>
     options res (js ''tag'') = Some (Value (VString (js ''a''))) \<and>
     ptext res = [js ''b''] \<and>
     r_error r = Some \<lparr>position = 9, etext = ''illegally repeated option''\<rparr> \<and>
     map ttype (r_tokens r) = [OptionName, Text, Space, InvalidOptionName, Text] \<and>
     map content (r_tokens r) = [js ''tag:'', js ''a'', js '' '', js ''tag:'', js ''b'']"
  by (simp add: scan_eval)

text \<open>
  C5: let the scan of a prefix of the input have reached bare text with a non-empty pending
  name that is a non-multiple option already present in \<open>result.options\<close>. Reading a colon
  then completes an \<open>InvalidOptionName\<close> token for the pending text and the colon, reports
  \<open>illegally repeated option\<close> at the colon through \<open>parseError\<close> (so it is the error returned
  unless an earlier one was recorded), leaves the result, and with it the first stored
  value, unchanged, and stays out of option-value mode with empty accumulators, so that the
  following characters are scanned as bare text. For \<open>tag:a tag:b\<close> with a non-multiple
  string option \<open>tag\<close> the result has \<open>tag = {value: "a"}\<close>, the error is at position 9, and
  \<open>b\<close> ends up in the free text.
\<close>

theorem repeated_option_is_rejected:
  assumes "scan (buildOptions config) 0 pre initState = Inr st"
    and "\<not> inQuotes st" and "\<not> inOptionValue st" and "currentValue st \<noteq> []"
    and "buildOptions config (currentValue st) = Some opt" and "\<not> multiple opt"
    and "options (result st) (currentValue st) = Some v"
  shows "(\<exists>st'. step (buildOptions config) (length pre) colonChar st = Inr st' \<and>
           tokens st' = tokens st @
             [\<lparr>ttype = InvalidOptionName, content = currentTokenText st @ [colonChar],
               suggest = SuggestNone\<rparr>] \<and>
           error st' = (case error st of
                          None \<Rightarrow> Some \<lparr>position = length pre, etext = ''illegally repeated option''\<rparr>
                        | Some e \<Rightarrow> Some e) \<and>
           result st' = result st \<and> \<not> inOptionValue st' \<and> \<not> inQuotes st' \<and>
           currentValue st' = [] \<and> currentTokenText st' = [])
       \<and> (\<exists>r res. parse (js ''tag:a tag:b'')
                      [\<lparr>name = js ''tag'', multiple = False, otype = TString\<rparr>] = Inr r \<and>
             r_result r = Some res \<and>
             options res (js ''tag'') = Some (Value (VString (js ''a''))) \<and>
             ptext res = [js ''b''] \<and>
             r_error r = Some \<lparr>position = 9, etext = ''illegally repeated option''\<rparr> \<and>
             map ttype (r_tokens r) = [OptionName, Text, Space, InvalidOptionName, Text] \<and>
             map content (r_tokens r) = [js ''tag:'', js ''a'', js '' '', js ''tag:'', js ''b''])"
proof -
  let ?opts = "buildOptions config"
  have inv: "scanInv ?opts st" by (rule reachable_inv[OF assms(1)])
  from storedOkD[OF scanInv_stored[OF inv] assms(7)] have nh: "?opts hasOwnPropertyName = None" by simp
  have nh': "options (result st) hasOwnPropertyName = None"
    by (rule storedOk_noshadow[OF scanInv_stored[OF inv]])
  have "step ?opts (length pre) colonChar st =
        Inr ((parseError (length pre) ''illegally repeated option''
               (completeToken InvalidOptionName
                 (st\<lparr>currentTokenText := currentTokenText st @ [colonChar]\<rparr>)))\<lparr>currentValue := []\<rparr>)"
    using assms(2-7) nh nh' by (simp add: step_def stepColon_def hasOwnProperty_def)
  then have "\<exists>st'. step (buildOptions config) (length pre) colonChar st = Inr st' \<and>
           tokens st' = tokens st @
             [\<lparr>ttype = InvalidOptionName, content = currentTokenText st @ [colonChar],
               suggest = SuggestNone\<rparr>] \<and>
           error st' = (case error st of
                          None \<Rightarrow> Some \<lparr>position = length pre, etext = ''illegally repeated option''\<rparr>
                        | Some e \<Rightarrow> Some e) \<and>
           result st' = result st \<and> \<not> inOptionValue st' \<and> \<not> inQuotes st' \<and>
           currentValue st' = [] \<and> currentTokenText st' = []"
    using assms(2,3) by simp
  from this repeated_option_example show ?thesis by (rule conjI)
qed


text \<open>Witness for C5: the state after \<open>tag:a tag\<close>, and the colon that follows.\<close>

theorem repeated_option_is_rejected_witness:
  "\<exists>st st'. scan (buildOptions [\<lparr>name = js ''tag'', multiple = False, otype = TString\<rparr>]) 0
                (js ''tag:a tag'') initState = Inr st \<and>
     \<not> inQuotes st \<and> \<not> inOptionValue st \<and> currentValue st = js ''tag'' \<and>
     buildOptions [\<lparr>name = js ''tag'', multiple = False, otype = TString\<rparr>] (currentValue st)
       = Some \<lparr>name = js ''tag'', multiple = False, otype = TString\<rparr> \<and>
     options (result st) (currentValue st) = Some (Value (VString (js ''a''))) \<and>
     step (buildOptions [\<lparr>name = js ''tag'', multiple = False, otype = TString\<rparr>])
          (length (js ''tag:a tag'')) colonChar st = Inr st' \<and>
     error st' = Some \<lparr>position = 9, etext = ''illegally repeated option''\<rparr> \<and>
     result st' = result st \<and> \<not> inOptionValue st' \<and> currentValue st' = []"
proof -
  let ?tag = "\<lparr>name = js ''tag'', multiple = False, otype = TString\<rparr>"
  let ?st = "initState\<lparr>
      tokens := [\<lparr>ttype = OptionName, content = js ''tag:'', suggest = SuggestNone\<rparr>,
                 \<lparr>ttype = Text, content = js ''a'', suggest = SuggestOption (Some ?tag)\<rparr>,
                 \<lparr>ttype = Space, content = js '' '', suggest = SuggestOptions\<rparr>],
      result := \<lparr>ptext = [], options = [js ''tag'' \<mapsto> Value (VString (js ''a''))]\<rparr>,
      currentTokenText := js ''tag'', currentValue := js ''tag''\<rparr>"
  have sc: "scan (buildOptions [?tag]) 0 (js ''tag:a tag'') initState = Inr ?st"
    by (simp add: scan_eval)
  have h: "\<not> inQuotes ?st" "\<not> inOptionValue ?st" "currentValue ?st \<noteq> []"
    "buildOptions [?tag] (currentValue ?st) = Some ?tag" "\<not> multiple ?tag"
    "options (result ?st) (currentValue ?st) = Some (Value (VString (js ''a'')))"
    by (simp_all add: initState_def buildOptions_def setProperty_def js_def protoName_def)
  from repeated_option_is_rejected[OF sc h]
  obtain st' where s: "step (buildOptions [?tag]) (length (js ''tag:a tag'')) colonChar ?st = Inr st'"
    and e: "error st' = (case error ?st of
                          None \<Rightarrow> Some \<lparr>position = length (js ''tag:a tag''), etext = ''illegally repeated option''\<rparr>
                        | Some e \<Rightarrow> Some e)"
    and r: "result st' = result ?st" "\<not> inOptionValue st'" "currentValue st' = []"
    by blast
  from e have e': "error st' = Some \<lparr>position = 9, etext = ''illegally repeated option''\<rparr>"
    by (simp add: initState_def js_def)
  have cv: "currentValue ?st = js ''tag''" by simp
  show ?thesis
    by (rule exI[of _ ?st], rule exI[of _ st'], intro conjI)
       (rule sc h(1) h(2) cv h(4) h(6) s e' r)+
qed

section \<open>C6: single and multiple values\<close>





section \<open>C7: the input ends inside quotes\<close>




section \<open>C8: suggestion hints\<close>

lemma hintsOk_simps [simp]:
  "hintsOk opts []"
  "hintsOk opts (t # ts) \<longleftrightarrow> hintOk opts t \<and> hintsOk opts ts"
  "hintsOk opts (ts @ us) \<longleftrightarrow> hintsOk opts ts \<and> hintsOk opts us"
  by (simp_all add: hintsOk_def)

lemma hintOk_options:
  "hintOk opts \<lparr>ttype = ty, content = c, suggest = SuggestOptions\<rparr> \<longleftrightarrow> ty = Text \<or> ty = Space"
  by (simp add: hintOk_def)

lemma hintOk_none:
  "hintOk opts \<lparr>ttype = ty, content = c, suggest = SuggestNone\<rparr> \<longleftrightarrow>
   ty \<noteq> Text \<and> ty \<noteq> Space \<and> ty \<noteq> MissingOptionValue \<and> ty \<noteq> Numeric \<and> ty \<noteq> Enum"
  by (simp add: hintOk_def)

lemma hintOk_matched:
  assumes "scanInv opts st" and "inOptionValue st"
  shows "hintOk opts \<lparr>ttype = ty, content = c, suggest = SuggestOption (currentOption st)\<rparr> \<longleftrightarrow>
         ty \<noteq> Space \<and> ty \<noteq> OptionName \<and> ty \<noteq> InvalidOptionName \<and> ty \<noteq> MissingQuote"
proof -
  from scanInv_matched[OF assms] obtain opt where cur: "currentOption st = Some opt" ..
  from scanInv_current[OF assms(1) cur] have "opts (name opt) = Some opt" by simp
  with cur show ?thesis by (simp add: hintOk_def)
qed

lemma completeOptionValue_hints:
  assumes inv: "scanInv opts st" and m: "inOptionValue st" and h: "hintsOk opts (tokens st)"
    and c: "completeOptionValue st = Inr st'"
  shows "hintsOk opts (tokens st') \<and> \<not> inOptionValue st'"
proof -
  from completeOptionValue_tokens[OF c] m obtain ty where
    t: "tokens st' = tokens st @ [\<lparr>ttype = ty, content = currentTokenText st,
                                   suggest = SuggestOption (currentOption st)\<rparr>]"
    and k: "ty = MissingOptionValue \<or> ty = Enum \<or> ty = Invalid \<or> ty = Text \<or> ty = Numeric"
    by auto
  from k have "hintOk opts \<lparr>ttype = ty, content = currentTokenText st,
                                   suggest = SuggestOption (currentOption st)\<rparr>"
    by (auto simp: hintOk_matched[OF inv m])
  with h t completeOptionValue_fields(4)[OF c] show ?thesis by simp
qed

lemma completeThenInvalid_hints:
  assumes inv: "scanInv opts st" and m: "inOptionValue st" and h: "hintsOk opts (tokens st)"
    and c: "completeThenInvalid d st = Inr st'"
  shows "hintsOk opts (tokens st')"
proof -
  from c obtain st1 where c1: "completeOptionValue st = Inr st1"
    and st': "st' = completeToken Invalid (st1\<lparr>currentTokenText := [d]\<rparr>)"
    by (auto simp: completeThenInvalid_def split: sum.splits)
  from completeOptionValue_hints[OF inv m h c1] show ?thesis
    by (simp add: st' hintOk_none)
qed

lemma stepQuoted_hints:
  assumes inv: "scanInv opts st" and h: "hintsOk opts (tokens st)"
    and s: "stepQuoted i c st = Inr st'"
  shows "hintsOk opts (tokens st')"
proof (cases "\<not> escaped st \<and> c = quoteChar \<and> inOptionValue st")
  case True
  with s obtain st2 where c2: "completeOptionValue (st\<lparr>currentTokenText := currentTokenText st @ [quoteChar]\<rparr>) = Inr st2"
    and st': "st' = st2\<lparr>inQuotes := False\<rparr>"
    by (auto simp: stepQuoted_def Let_def split: sum.splits)
  from completeOptionValue_hints[OF _ _ _ c2] inv h True show ?thesis by (simp add: st')
next
  case False
  show ?thesis
  proof (cases "inOptionValue st")
    case True
    note m = hintOk_matched[OF inv True]
    from False True s h show ?thesis
      by (auto simp: stepQuoted_def Let_def m split: if_splits option.splits)
  next
    case nm: False
    with False s h show ?thesis
      by (auto simp: stepQuoted_def Let_def hintOk_options hintOk_none
               split: if_splits option.splits)
  qed
qed

lemma stepOptionValue_hints:
  assumes inv: "scanInv opts st" and m: "inOptionValue st" and h: "hintsOk opts (tokens st)"
    and s: "stepOptionValue i c st = Inr st'"
  shows "hintsOk opts (tokens st')"
proof -
  have inv': "\<And>p t. scanInv opts (parseError p t st)" using inv by simp
  have m': "\<And>p t. inOptionValue (parseError p t st)" using m by simp
  have h': "\<And>p t. hintsOk opts (tokens (parseError p t st))" using h by simp
  note cti = completeThenInvalid_hints[OF inv' m' h']
  show ?thesis
  proof (cases "c \<noteq> quoteChar \<and> isSpace c")
    case True
    with s obtain st1 where c1: "completeOptionValue st = Inr st1"
      and st': "st' = completeToken Space (st1\<lparr>currentTokenText := [spaceChar]\<rparr>)"
      by (auto simp: stepOptionValue_def split: sum.splits)
    from completeOptionValue_hints[OF inv m h c1] show ?thesis
      by (simp add: st' hintOk_options)
  next
    case False
    with s h show ?thesis
      by (auto simp: stepOptionValue_def split: if_splits dest: cti)
  qed
qed

lemma stepBare_hints:
  assumes nm: "\<not> inOptionValue st" and h: "hintsOk opts (tokens st)"
    and s: "stepBare opts i c st = Inr st'"
  shows "hintsOk opts (tokens st')"
proof (cases "c = colonChar")
  case True
  with s have "stepColon opts i st = Inr st'" by simp
  then show ?thesis using h nm
    by (cases rule: stepColon_InrE) (simp_all add: hintOk_none)
next
  case False
  with s h nm show ?thesis
    by (auto simp: stepBare_def Let_def hintOk_options hintOk_none split: if_splits)
qed

lemma step_hints:
  assumes inv: "scanInv opts st" and h: "hintsOk opts (tokens st)"
    and s: "step opts i c st = Inr st'"
  shows "hintsOk opts (tokens st')"
  using s stepQuoted_hints[OF inv h] stepOptionValue_hints[OF inv _ h] stepBare_hints[OF _ h]
  by (auto simp: step_def split: if_splits)

lemma scan_hints:
  "wellFormedTable opts \<Longrightarrow> scanInv opts st \<Longrightarrow> hintsOk opts (tokens st) \<Longrightarrow>
   scan opts i cs st = Inr st' \<Longrightarrow> hintsOk opts (tokens st')"
proof (induction cs arbitrary: i st)
  case Nil
  then show ?case by simp
next
  case (Cons c cs)
  from Cons.prems(4) obtain st1 where s1: "step opts i c st = Inr st1"
    and r: "scan opts (Suc i) cs st1 = Inr st'"
    by (auto split: sum.splits)
  from Cons.IH[OF Cons.prems(1) step_inv[OF Cons.prems(1,2) s1] step_hints[OF Cons.prems(2,3) s1] r]
  show ?case .
qed

lemma endOfInput_hints:
  assumes inv: "scanInv opts st" and h: "hintsOk opts (tokens st)"
    and s: "endOfInput n st = Inr st'"
  shows "hintsOk opts (tokens st')"
proof (cases "inOptionValue st")
  case True
  note m = hintOk_matched[OF inv True]
  have i1: "scanInv opts (completeToken Text st)" using inv by simp
  have m1: "inOptionValue (completeToken Text st)" using True by simp
  have h1: "hintsOk opts (tokens (completeToken Text st))" using h True by (simp add: m)
  note a = completeOptionValue_hints[OF i1 m1 h1]
  note b = completeOptionValue_hints[OF inv True h]
  from s True show ?thesis
    by (auto simp: endOfInput_def Let_def hintOk_none split: if_splits sum.splits dest!: a b)
next
  case False
  with s h show ?thesis
    by (auto simp: endOfInput_def Let_def hintOk_options hintOk_none split: if_splits)
qed

lemma parse_hints:
  assumes "parse str config = Inr r"
  shows "hintsOk (buildOptions config) (r_tokens r)"
proof -
  let ?opts = "buildOptions config"
  from assms obtain st1 st2 where sc: "scan ?opts 0 str initState = Inr st1"
    and e: "endOfInput (length str) st1 = Inr st2" and r: "r_tokens r = tokens st2"
    by (auto simp: parse_def finish_def split: sum.splits)
  have h0: "hintsOk ?opts (tokens initState)" by (simp add: initState_def)
  from endOfInput_hints[OF reachable_inv[OF sc] scan_hints[OF buildOptions_wf scanInv_init h0 sc] e] r
  show ?thesis by simp
qed

text \<open>
  C8: \<open>completeToken\<close>, which adds every token of the output, appends one token of the given
  kind whose hint is the matched option when the scanner is in option-value mode or the
  kind is \<open>MissingOptionValue\<close>, is \<open>"options"\<close> for a \<open>Text\<close> or \<open>Space\<close> token outside
  option-value mode, and is \<open>"none"\<close> otherwise. In the output of \<open>parse\<close> the matched option
  of a hint is never \<open>null\<close>: it is an entry of the schema's lookup table, and it is never
  on a \<open>Space\<close>, \<open>OptionName\<close>, \<open>InvalidOptionName\<close> or \<open>MissingQuote\<close> token, which are
  completed outside option-value mode; \<open>"options"\<close> is only on \<open>Text\<close> and \<open>Space\<close> tokens;
  and \<open>"none"\<close> is never on a \<open>Text\<close>, \<open>Space\<close>, \<open>MissingOptionValue\<close>, \<open>Numeric\<close> or \<open>Enum\<close>
  token.
\<close>

theorem suggest_hint_rule:
  "(\<exists>tok. tokens (completeToken ty st) = tokens st @ [tok] \<and> ttype tok = ty \<and>
      content tok = currentTokenText st \<and>
      (inOptionValue st \<or> ty = MissingOptionValue \<longrightarrow> suggest tok = SuggestOption (currentOption st)) \<and>
      (\<not> inOptionValue st \<and> (ty = Text \<or> ty = Space) \<longrightarrow> suggest tok = SuggestOptions) \<and>
      (\<not> inOptionValue st \<and> ty \<noteq> Text \<and> ty \<noteq> Space \<and> ty \<noteq> MissingOptionValue \<longrightarrow>
         suggest tok = SuggestNone))
   \<and> (parse str config = Inr r \<and> t \<in> set (r_tokens r) \<longrightarrow>
        (case suggest t of
           SuggestOption x \<Rightarrow>
             (\<exists>opt. x = Some opt \<and> buildOptions config (name opt) = Some opt) \<and>
             ttype t \<noteq> Space \<and> ttype t \<noteq> OptionName \<and> ttype t \<noteq> InvalidOptionName \<and>
             ttype t \<noteq> MissingQuote
         | SuggestOptions \<Rightarrow> ttype t = Text \<or> ttype t = Space
         | SuggestNone \<Rightarrow>
             ttype t \<noteq> Text \<and> ttype t \<noteq> Space \<and> ttype t \<noteq> MissingOptionValue \<and>
             ttype t \<noteq> Numeric \<and> ttype t \<noteq> Enum))"
proof (intro conjI impI)
  show "\<exists>tok. tokens (completeToken ty st) = tokens st @ [tok] \<and> ttype tok = ty \<and>
      content tok = currentTokenText st \<and>
      (inOptionValue st \<or> ty = MissingOptionValue \<longrightarrow> suggest tok = SuggestOption (currentOption st)) \<and>
      (\<not> inOptionValue st \<and> (ty = Text \<or> ty = Space) \<longrightarrow> suggest tok = SuggestOptions) \<and>
      (\<not> inOptionValue st \<and> ty \<noteq> Text \<and> ty \<noteq> Space \<and> ty \<noteq> MissingOptionValue \<longrightarrow>
         suggest tok = SuggestNone)"
    by (auto simp: completeToken_def)
next
  assume a: "parse str config = Inr r \<and> t \<in> set (r_tokens r)"
  then have p: "parse str config = Inr r" and t: "t \<in> set (r_tokens r)" by simp_all
  from parse_hints[OF p] t have "hintOk (buildOptions config) t"
    by (simp add: hintsOk_def list_all_iff)
  then show "case suggest t of
           SuggestOption x \<Rightarrow>
             (\<exists>opt. x = Some opt \<and> buildOptions config (name opt) = Some opt) \<and>
             ttype t \<noteq> Space \<and> ttype t \<noteq> OptionName \<and> ttype t \<noteq> InvalidOptionName \<and>
             ttype t \<noteq> MissingQuote
         | SuggestOptions \<Rightarrow> ttype t = Text \<or> ttype t = Space
         | SuggestNone \<Rightarrow>
             ttype t \<noteq> Text \<and> ttype t \<noteq> Space \<and> ttype t \<noteq> MissingOptionValue \<and>
             ttype t \<noteq> Numeric \<and> ttype t \<noteq> Enum"
    by (auto simp: hintOk_def split: Suggest.splits option.splits)
qed

text \<open>
  Witness for C8: the three cases of the rule on concrete states, and the token of the value
  \<open>a\<close> in \<open>tag:a tag:b\<close>, which carries the option \<open>tag\<close>.
\<close>

theorem suggest_hint_rule_witness:
  "suggest (last (tokens (completeToken Text
      (initState\<lparr>inOptionValue := True,
                  currentOption := Some \<lparr>name = js ''tag'', multiple = False, otype = TString\<rparr>\<rparr>))))
     = SuggestOption (Some \<lparr>name = js ''tag'', multiple = False, otype = TString\<rparr>)
   \<and> suggest (last (tokens (completeToken MissingOptionValue
      (initState\<lparr>currentOption := Some \<lparr>name = js ''tag'', multiple = False, otype = TString\<rparr>\<rparr>))))
     = SuggestOption (Some \<lparr>name = js ''tag'', multiple = False, otype = TString\<rparr>)
   \<and> suggest (last (tokens (completeToken Space initState))) = SuggestOptions
   \<and> suggest (last (tokens (completeToken Invalid initState))) = SuggestNone
   \<and> (\<exists>r. parse (js ''tag:a tag:b'') [\<lparr>name = js ''tag'', multiple = False, otype = TString\<rparr>] = Inr r \<and>
        \<lparr>ttype = Text, content = js ''a'',
          suggest = SuggestOption (Some \<lparr>name = js ''tag'', multiple = False, otype = TString\<rparr>)\<rparr>
          \<in> set (r_tokens r) \<and>
        buildOptions [\<lparr>name = js ''tag'', multiple = False, otype = TString\<rparr>] (js ''tag'')
          = Some \<lparr>name = js ''tag'', multiple = False, otype = TString\<rparr>)"
proof -
  let ?tag = "\<lparr>name = js ''tag'', multiple = False, otype = TString\<rparr>"
  let ?s1 = "initState\<lparr>inOptionValue := True, currentOption := Some ?tag\<rparr>"
  let ?s2 = "initState\<lparr>currentOption := Some ?tag\<rparr>"
  let ?t = "\<lparr>ttype = Text, content = js ''a'', suggest = SuggestOption (Some ?tag)\<rparr>"
  have m: "inOptionValue ?s1" "\<not> inOptionValue ?s2" "\<not> inOptionValue initState"
    "currentOption ?s1 = Some ?tag" "currentOption ?s2 = Some ?tag"
    by (simp_all add: initState_def)
  from suggest_hint_rule[where ty = Text and st = ?s1, THEN conjunct1] m
  have A: "suggest (last (tokens (completeToken Text ?s1))) = SuggestOption (Some ?tag)" by auto
  from suggest_hint_rule[where ty = MissingOptionValue and st = ?s2, THEN conjunct1] m
  have B: "suggest (last (tokens (completeToken MissingOptionValue ?s2))) = SuggestOption (Some ?tag)"
    by auto
  from suggest_hint_rule[where ty = Space and st = initState, THEN conjunct1] m
  have C: "suggest (last (tokens (completeToken Space initState))) = SuggestOptions" by auto
  from suggest_hint_rule[where ty = Invalid and st = initState, THEN conjunct1] m
  have D: "suggest (last (tokens (completeToken Invalid initState))) = SuggestNone" by auto
  have "\<exists>r. parse (js ''tag:a tag:b'') [?tag] = Inr r \<and> ?t \<in> set (r_tokens r)"
    by (simp add: scan_eval)
  then obtain r where p: "parse (js ''tag:a tag:b'') [?tag] = Inr r" and t: "?t \<in> set (r_tokens r)"
    by blast
  from suggest_hint_rule[where str = "js ''tag:a tag:b''" and config = "[?tag]" and r = r and t = ?t,
      THEN conjunct2, rule_format, OF conjI[OF p t]]
  have "\<exists>opt. Some ?tag = Some opt \<and> buildOptions [?tag] (name opt) = Some opt" by simp
  then have E: "buildOptions [?tag] (js ''tag'') = Some ?tag" by auto
  have F: "\<exists>r. parse (js ''tag:a tag:b'') [?tag] = Inr r \<and> ?t \<in> set (r_tokens r) \<and>
      buildOptions [?tag] (js ''tag'') = Some ?tag"
    using p t E by blast
  from A B C D F show ?thesis by (intro conjI)
qed

section \<open>C4: value coercion\<close>

lemma digit_not_space:
  assumes "isDecimalDigit c"
  shows "\<not> isSpace c"
proof -
  from assms have lo: "0x30 \<le> c" and hi: "c \<le> 0x39" by (simp_all add: isDecimalDigit_def)
  have "\<not> (0x2000 \<le> c)"
  proof
    assume "0x2000 \<le> c"
    from order_trans[OF this hi] show False by simp
  qed
  with lo hi show ?thesis by (auto simp: isSpace_def)
qed

lemma digits_no_space: "list_all isDecimalDigit s \<Longrightarrow> \<forall>c \<in> set s. \<not> isSpace c"
  by (auto simp: list_all_iff digit_not_space)

lemma literal_chars_not_space:
  "\<not> isSpace 0x2B" "\<not> isSpace 0x2D" "\<not> isSpace 0x2E" "\<not> isSpace 0x65" "\<not> isSpace 0x45"
  by (simp_all add: isSpace_def)

lemma signedInteger_no_space: "signedInteger s \<Longrightarrow> \<forall>c \<in> set s. \<not> isSpace c"
  by (cases s)
     (auto simp: signedInteger_def decimalDigits_def literal_chars_not_space list_all_iff
           dest: digit_not_space split: if_splits)

lemma exponentPartOpt_no_space: "exponentPartOpt s \<Longrightarrow> \<forall>c \<in> set s. \<not> isSpace c"
  by (cases s)
     (auto simp: exponentPartOpt_def literal_chars_not_space dest: signedInteger_no_space)

lemma takeWhile_digits_no_space: "\<forall>c \<in> set (takeWhile isDecimalDigit s). \<not> isSpace c"
  by (auto dest: set_takeWhileD simp: digit_not_space)

lemma set_takeWhile_dropWhile:
  "set xs = set (takeWhile P xs) \<union> set (dropWhile P xs)"
proof -
  have "set xs = set (takeWhile P xs @ dropWhile P xs)" by (simp only: takeWhile_dropWhile_id)
  then show ?thesis by (simp only: set_append)
qed

lemma strUnsignedDecimalLiteral_no_space:
  assumes "strUnsignedDecimalLiteral s"
  shows "\<forall>c \<in> set s. \<not> isSpace c"
proof (cases "s = js ''Infinity''")
  case True
  then show ?thesis by (simp add: js_def isSpace_def)
next
  case False
  let ?r = "dropWhile isDecimalDigit s"
  have "\<forall>c \<in> set ?r. \<not> isSpace c"
  proof (cases ?r)
    case Nil
    show ?thesis unfolding Nil by simp
  next
    case (Cons c r')
    show ?thesis
    proof (cases "c = 0x2E")
      case True
      from assms False Cons True have "exponentPartOpt (dropWhile isDecimalDigit r')"
        by (simp add: strUnsignedDecimalLiteral_def Let_def)
      from exponentPartOpt_no_space[OF this] takeWhile_digits_no_space[of r']
      have "\<forall>c \<in> set r'. \<not> isSpace c"
        by (subst set_takeWhile_dropWhile[of r' isDecimalDigit]) blast
      with True show ?thesis unfolding Cons by (simp add: literal_chars_not_space)
    next
      case nd: False
      from assms False Cons nd have "exponentPartOpt ?r"
        by (simp add: strUnsignedDecimalLiteral_def Let_def)
      from exponentPartOpt_no_space[OF this] show ?thesis .
    qed
  qed
  with takeWhile_digits_no_space[of s] show ?thesis
    by (subst set_takeWhile_dropWhile[of s isDecimalDigit]) blast
qed

lemma strDecimalLiteral_no_space:
  assumes "strDecimalLiteral s"
  shows "\<forall>c \<in> set s. \<not> isSpace c"
proof (cases s)
  case Nil
  then show ?thesis by simp
next
  case (Cons c r)
  show ?thesis
  proof (cases "c = 0x2B \<or> c = 0x2D")
    case True
    with assms Cons have "strUnsignedDecimalLiteral r" by (auto simp: strDecimalLiteral_def)
    from strUnsignedDecimalLiteral_no_space[OF this] True Cons show ?thesis
      by (auto simp: literal_chars_not_space)
  next
    case False
    with assms Cons have "strUnsignedDecimalLiteral s" by (auto simp: strDecimalLiteral_def)
    then show ?thesis by (rule strUnsignedDecimalLiteral_no_space)
  qed
qed

lemma trimWhiteSpace_id:
  assumes "\<forall>c \<in> set s. \<not> isSpace c"
  shows "trimWhiteSpace s = s"
proof -
  from assms have a: "dropWhile isSpace s = s" by (cases s) auto
  from assms have "\<forall>c \<in> set (rev s). \<not> isSpace c" by simp
  then have b: "dropWhile isSpace (rev s) = rev s" by (cases "rev s") auto
  show ?thesis by (simp add: trimWhiteSpace_def a b)
qed

lemma decimal_literal_is_numeric:
  "strDecimalLiteral s \<Longrightarrow> stringNumericLiteral s"
  by (simp add: stringNumericLiteral_def trimWhiteSpace_id[OF strDecimalLiteral_no_space])

text \<open>The definitions to unfold when the numeric grammar is run on a concrete string.\<close>

lemmas number_eval =
  numberIsNaN_def stringNumericLiteral_def trimWhiteSpace_def strDecimalLiteral_def
  strUnsignedDecimalLiteral_def nonDecimalIntegerLiteral_def exponentPartOpt_def
  signedInteger_def decimalDigits_def isDecimalDigit_def isHexDigit_def isOctalDigit_def
  isBinaryDigit_def

text \<open>
  C4 as stated fails for numbers: \<open>n:0x1F\<close> stores a number for the number option \<open>n\<close>
  although \<open>0x1F\<close> is no decimal literal, and \<open>n:" 12 "\<close> stores a number although the raw
  value has a space on each side, which \<open>Number\<close> skips.
\<close>

theorem number_accepts_hex_and_padded_values:
  "map_sum id (storedOption (js ''n''))
     (parse (js ''n:0x1F'') [\<lparr>name = js ''n'', multiple = False, otype = TNumber\<rparr>])
     = Inr (Some (Value (VNumber (js ''0x1F''))))
   \<and> \<not> strDecimalLiteral (js ''0x1F'')
   \<and> map_sum id (storedOption (js ''n''))
     (parse (js ''n:\" 12 \"'') [\<lparr>name = js ''n'', multiple = False, otype = TNumber\<rparr>])
     = Inr (Some (Value (VNumber (js '' 12 ''))))
   \<and> \<not> strDecimalLiteral (js '' 12 '')"
  by (simp add: scan_eval number_eval storedOption_def)

text \<open>
  C4 (amended): when the scan has matched an option and the raw value \<open>v\<close> is not empty,
  completing the option value returns, and
  a boolean option stores \<open>true\<close> for exactly \<open>yes\<close> and \<open>false\<close> for exactly \<open>no\<close> and rejects
  every other value; a string option stores \<open>v\<close> unchanged; an enum option stores \<open>v\<close> iff it
  is one of the option's choices; these three compare and store \<open>v\<close> as it is, with no
  trimming and no case folding. A number option stores \<open>Number(v)\<close> exactly when \<open>v\<close>, with
  the white space at both ends removed, is empty, a signed decimal literal (digits with an
  optional fraction and exponent, or \<open>Infinity\<close>), or a binary, octal or hexadecimal integer
  literal, and rejects every other value (there is no partial parse). A decimal literal has no
  white space to remove, so every decimal literal is accepted.
\<close>

theorem value_coercion_rules:
  assumes "scan (buildOptions config) 0 pre initState = Inr st"
    and "currentOption st = Some opt" and "currentValue st = v" and "v \<noteq> []"
  shows "(\<exists>st'. completeOptionValue st = Inr st' \<and>
          (case otype opt of
             TBoolean \<Rightarrow>
               if v = js ''yes'' then storedAs st st' opt Enum (VBool True)
               else if v = js ''no'' then storedAs st st' opt Enum (VBool False)
               else rejectedValue st st'
           | TString \<Rightarrow> storedAs st st' opt Text (VString v)
           | TEnum choices \<Rightarrow>
               if v \<in> set choices then storedAs st st' opt Enum (VString v)
               else rejectedValue st st'
           | TNumber \<Rightarrow>
               if (let t = trimWhiteSpace v
                   in t = [] \<or> strDecimalLiteral t \<or> nonDecimalIntegerLiteral t)
               then storedAs st st' opt Numeric (VNumber v)
               else rejectedValue st st'))
       \<and> (strDecimalLiteral v \<longrightarrow> trimWhiteSpace v = v)"
proof
  let ?opts = "buildOptions config"
  have inv: "scanInv ?opts st" by (rule reachable_inv[OF assms(1)])
  from scanInv_current[OF inv assms(2)] have tbl: "?opts (name opt) = Some opt"
    and nohop: "?opts hasOwnPropertyName = None" by simp_all
  note sv = storeValue_eq[OF buildOptions_wf scanInv_stored[OF inv] tbl nohop]
  show "\<exists>st'. completeOptionValue st = Inr st' \<and>
          (case otype opt of
             TBoolean \<Rightarrow>
               if v = js ''yes'' then storedAs st st' opt Enum (VBool True)
               else if v = js ''no'' then storedAs st st' opt Enum (VBool False)
               else rejectedValue st st'
           | TString \<Rightarrow> storedAs st st' opt Text (VString v)
           | TEnum choices \<Rightarrow>
               if v \<in> set choices then storedAs st st' opt Enum (VString v)
               else rejectedValue st st'
           | TNumber \<Rightarrow>
               if (let t = trimWhiteSpace v
                   in t = [] \<or> strDecimalLiteral t \<or> nonDecimalIntegerLiteral t)
               then storedAs st st' opt Numeric (VNumber v)
               else rejectedValue st st')"
  proof (cases "otype opt")
    case TNumber
    with assms(2-4) show ?thesis
      by (simp add: completeOptionValue_def coerceValue_def sv storedAs_def rejectedValue_def
            numberIsNaN_def stringNumericLiteral_def)
  next
    case TString
    with assms(2-4) show ?thesis
      by (simp add: completeOptionValue_def coerceValue_def sv storedAs_def rejectedValue_def)
  next
    case (TEnum choices)
    with assms(2-4) show ?thesis
      by (simp add: completeOptionValue_def coerceValue_def sv storedAs_def rejectedValue_def)
  next
    case TBoolean
    with assms(2-4) show ?thesis
      by (simp add: completeOptionValue_def coerceValue_def sv storedAs_def rejectedValue_def)
  qed
next
  show "strDecimalLiteral v \<longrightarrow> trimWhiteSpace v = v"
    by (simp add: trimWhiteSpace_id strDecimalLiteral_no_space)
qed

text \<open>
  Witness for C4: \<open>n:1.5e3\<close> for a number option stores the number, and \<open>b:YES\<close> for a
  boolean option is rejected.
\<close>

theorem value_coercion_rules_witness:
  "(\<exists>st st'. scan (buildOptions [\<lparr>name = js ''n'', multiple = False, otype = TNumber\<rparr>]) 0
                 (js ''n:1.5e3'') initState = Inr st \<and>
      currentOption st = Some \<lparr>name = js ''n'', multiple = False, otype = TNumber\<rparr> \<and>
      currentValue st = js ''1.5e3'' \<and> strDecimalLiteral (js ''1.5e3'') \<and>
      trimWhiteSpace (js ''1.5e3'') = js ''1.5e3'' \<and>
      completeOptionValue st = Inr st' \<and>
      options (result st') (js ''n'') = Some (Value (VNumber (js ''1.5e3''))) \<and>
      ttype (last (tokens st')) = Numeric)
   \<and> (\<exists>st st'. scan (buildOptions [\<lparr>name = js ''b'', multiple = False, otype = TBoolean\<rparr>]) 0
                 (js ''b:YES'') initState = Inr st \<and>
      currentOption st = Some \<lparr>name = js ''b'', multiple = False, otype = TBoolean\<rparr> \<and>
      currentValue st = js ''YES'' \<and>
      completeOptionValue st = Inr st' \<and>
      options (result st') (js ''b'') = None \<and>
      ttype (last (tokens st')) = Invalid)"
proof -
  let ?n = "\<lparr>name = js ''n'', multiple = False, otype = TNumber\<rparr>"
  let ?b = "\<lparr>name = js ''b'', multiple = False, otype = TBoolean\<rparr>"
  let ?sn = "initState\<lparr>
      tokens := [\<lparr>ttype = OptionName, content = js ''n:'', suggest = SuggestNone\<rparr>],
      currentTokenText := js ''1.5e3'', currentValue := js ''1.5e3'',
      inOptionValue := True, currentOption := Some ?n\<rparr>"
  let ?sb = "initState\<lparr>
      tokens := [\<lparr>ttype = OptionName, content = js ''b:'', suggest = SuggestNone\<rparr>],
      currentTokenText := js ''YES'', currentValue := js ''YES'',
      inOptionValue := True, currentOption := Some ?b\<rparr>"
  have scn: "scan (buildOptions [?n]) 0 (js ''n:1.5e3'') initState = Inr ?sn"
    by (simp add: scan_eval)
  have scb: "scan (buildOptions [?b]) 0 (js ''b:YES'') initState = Inr ?sb"
    by (simp add: scan_eval)
  have hn: "currentOption ?sn = Some ?n" "currentValue ?sn = js ''1.5e3''" "js ''1.5e3'' \<noteq> []"
    and hb: "currentOption ?sb = Some ?b" "currentValue ?sb = js ''YES''" "js ''YES'' \<noteq> []"
    by (simp_all add: js_def)
  have dl: "strDecimalLiteral (js ''1.5e3'')"
    by (simp add: js_def number_eval)
  note wn = value_coercion_rules[OF scn hn]
  note wb = value_coercion_rules[OF scb hb]
  from wn dl have tr: "trimWhiteSpace (js ''1.5e3'') = js ''1.5e3''" by blast
  have cond: "(let t = trimWhiteSpace (js ''1.5e3'')
               in t = [] \<or> strDecimalLiteral t \<or> nonDecimalIntegerLiteral t)"
    using dl by (simp add: tr Let_def)
  from wn obtain sn' where cn: "completeOptionValue ?sn = Inr sn'"
    and "if (let t = trimWhiteSpace (js ''1.5e3'')
               in t = [] \<or> strDecimalLiteral t \<or> nonDecimalIntegerLiteral t)
         then storedAs ?sn sn' ?n Numeric (VNumber (js ''1.5e3''))
         else rejectedValue ?sn sn'"
    by auto
  with cond have "storedAs ?sn sn' ?n Numeric (VNumber (js ''1.5e3''))" by (simp only: if_True)
  then have rn: "options (result sn') (js ''n'') = Some (Value (VNumber (js ''1.5e3'')))"
    "ttype (last (tokens sn')) = Numeric"
    by (simp_all add: storedAs_def)
  have ny: "js ''YES'' \<noteq> js ''yes''" "js ''YES'' \<noteq> js ''no''" by (simp_all add: js_def)
  from wb obtain sb' where cb: "completeOptionValue ?sb = Inr sb'"
    and "if js ''YES'' = js ''yes'' then storedAs ?sb sb' ?b Enum (VBool True)
         else if js ''YES'' = js ''no'' then storedAs ?sb sb' ?b Enum (VBool False)
         else rejectedValue ?sb sb'"
    by auto
  with ny have "rejectedValue ?sb sb'" by (simp only: if_False)
  then have rb: "options (result sb') (js ''b'') = None" "ttype (last (tokens sb')) = Invalid"
    by (simp_all add: rejectedValue_def initState_def)
  have A: "\<exists>st st'. scan (buildOptions [?n]) 0 (js ''n:1.5e3'') initState = Inr st \<and>
      currentOption st = Some ?n \<and> currentValue st = js ''1.5e3'' \<and>
      strDecimalLiteral (js ''1.5e3'') \<and> trimWhiteSpace (js ''1.5e3'') = js ''1.5e3'' \<and>
      completeOptionValue st = Inr st' \<and>
      options (result st') (js ''n'') = Some (Value (VNumber (js ''1.5e3''))) \<and>
      ttype (last (tokens st')) = Numeric"
    by (rule exI[of _ ?sn], rule exI[of _ sn'], intro conjI) (rule scn hn dl tr cn rn)+
  have B: "\<exists>st st'. scan (buildOptions [?b]) 0 (js ''b:YES'') initState = Inr st \<and>
      currentOption st = Some ?b \<and> currentValue st = js ''YES'' \<and>
      completeOptionValue st = Inr st' \<and> options (result st') (js ''b'') = None \<and>
      ttype (last (tokens st')) = Invalid"
    by (rule exI[of _ ?sb], rule exI[of _ sb'], intro conjI) (rule scb hb cb rb)+
  from A B show ?thesis by (rule conjI)
qed

end
